theory Spec2Isabelle
  imports Complex_Main
begin

section \<open>The arena mini-game of \<open>GameArena.tsx\<close>\<close>

text \<open>
  The component keeps four pieces of React state (\<open>gameState\<close>, \<open>currentPlayer\<close>,
  \<open>collectibles\<close>, \<open>timeLeft\<close>), one canvas reference and one pending timeout.
  Every handler is modelled as a function from the state of the render whose closure it
  is to the state React commits after the handler's updates. JavaScript numbers that hold
  coordinates and random draws are doubles, modelled by their real values with every
  arithmetic result rounded (see below); scores, point values, the clock and the canvas
  size are integers, which doubles hold exactly. The calls of \<open>Math.random()\<close>
  made by a handler are read, in the order of the calls, from a sequence
  \<open>rnd 0, rnd 1, \<dots>\<close>; the value of \<open>Date.now()\<close> is the parameter \<open>now\<close>.
\<close>

subsection \<open>Numbers\<close>

text \<open>
  A JavaScript number is an IEEE 754 double. A finite double is modelled by the real it
  denotes, and \<open>toDouble\<close> rounds the exact result of an operation to the nearest
  double, ties to the even significand: 53 significant bits, with the fixed spacing
  \<open>2 powr - 1074\<close> below \<open>2 powr - 1022\<close>. \<open>Math.sqrt\<close> and \<open>Math.pow(d, 2)\<close>
  are taken as the correctly rounded square root and square. Inputs range over all
  reals, which include every finite double. A result beyond the largest double stays a
  finite real where the code has \<open>Infinity\<close>; in this component such a value only
  feeds a comparison (with 20, with the clamp bounds), which comes out the same.
\<close>

definition roundEven :: "real \<Rightarrow> int" where
  "roundEven q =
     (if q - of_int \<lfloor>q\<rfloor> < 1 / 2 then \<lfloor>q\<rfloor>
      else if 1 / 2 < q - of_int \<lfloor>q\<rfloor> then \<lfloor>q\<rfloor> + 1
      else if even \<lfloor>q\<rfloor> then \<lfloor>q\<rfloor> else \<lfloor>q\<rfloor> + 1)"

text \<open>The spacing of the doubles around \<open>x\<close>.\<close>

definition ulp :: "real \<Rightarrow> real" where
  "ulp x = 2 powr of_int (max \<lfloor>log 2 \<bar>x\<bar>\<rfloor> (- 1022) - 52)"

definition toDouble :: "real \<Rightarrow> real" where
  "toDouble x = (if x = 0 then 0 else of_int (roundEven (x / ulp x)) * ulp x)"

subsection \<open>Data\<close>

record player =
  p_id :: string
  nftId :: string
  p_x :: real
  p_y :: real
  score :: int
  health :: int
  color :: string
  name :: string

datatype collectible_type = Coin | Powerup

record collectible =
  c_id :: string
  c_x :: real
  c_y :: real
  c_type :: collectible_type
  c_value :: int

datatype game_state = Waiting | Playing | Ended

text \<open>The canvas element: its size, and whether \<open>getContext('2d')\<close> yields a context.\<close>

record canvas =
  width :: int
  height :: int
  context2d :: bool

text \<open>
  \<open>timer\<close> is the pending \<open>setTimeout\<close> callback of the countdown effect, with the
  value of \<open>timeLeft\<close> its closure captured. \<open>scoreUpdates\<close> and \<open>gameEnds\<close> record
  the calls of the props \<open>onScoreUpdate\<close> and \<open>onGameEnd\<close>, oldest first.
\<close>

record arena =
  gameState :: game_state
  currentPlayer :: player
  collectibles :: "collectible list"
  timeLeft :: int
  canvasRef :: "canvas option"
  timer :: "int option"
  scoreUpdates :: "int list"
  gameEnds :: "int list"

subsection \<open>Template literals\<close>

fun digits :: "nat \<Rightarrow> string" where
  "digits n = (if n < 10 then [char_of (48 + n)]
               else digits (n div 10) @ [char_of (48 + n mod 10)])"

declare digits.simps [simp del]

definition collectibleId :: "nat \<Rightarrow> string" where
  "collectibleId n = ''collectible-'' @ digits n"

subsection \<open>Spawning\<close>

text \<open>
  The object literal of lines 90--96 and 197--203: four draws, in the order of the
  properties \<open>x\<close>, \<open>y\<close>, \<open>type\<close>, \<open>value\<close>. The literal \<open>0.7\<close> is the
  double nearest to 7/10.
\<close>

definition newCollectible :: "string \<Rightarrow> real \<Rightarrow> real \<Rightarrow> real \<Rightarrow> real \<Rightarrow> collectible" where
  "newCollectible ident r0 r1 r2 r3 =
     \<lparr>c_id = ident,
      c_x = toDouble (toDouble (r0 * 550) + 25),
      c_y = toDouble (toDouble (r1 * 350) + 25),
      c_type = (if r2 > toDouble (7 / 10) then Powerup else Coin),
      c_value = (if r3 > toDouble (7 / 10) then 50 else 10)\<rparr>"

text \<open>The loop \<open>for (let i = 0; i < 10; i++)\<close> of \<open>spawnCollectibles\<close>, from \<open>i\<close> on.\<close>

function spawnFrom :: "nat \<Rightarrow> (nat \<Rightarrow> real) \<Rightarrow> collectible list" where
  "spawnFrom i rnd =
     (if i < 10
      then newCollectible (collectibleId i)
             (rnd (4 * i)) (rnd (4 * i + 1)) (rnd (4 * i + 2)) (rnd (4 * i + 3))
           # spawnFrom (Suc i) rnd
      else [])"
  by pat_completeness auto
termination
  by (relation "measure (\<lambda>(i, rnd). 10 - i)") auto

declare spawnFrom.simps [simp del]

definition spawnCollectibles :: "(nat \<Rightarrow> real) \<Rightarrow> arena \<Rightarrow> arena" where
  "spawnCollectibles rnd s = s\<lparr>collectibles := spawnFrom 0 rnd\<rparr>"

subsection \<open>Collision check\<close>

text \<open>
  Lines 177--180, \<open>Math.sqrt(Math.pow(dx, 2) + Math.pow(dy, 2))\<close> with
  \<open>dx = currentPlayer.x - collectible.x\<close> and \<open>dy = currentPlayer.y - collectible.y\<close>:
  two subtractions, two squares, one sum and one square root, each rounded.
\<close>

definition distance :: "player \<Rightarrow> collectible \<Rightarrow> real" where
  "distance p c =
     toDouble (sqrt (toDouble (toDouble ((toDouble (p_x p - c_x c)) ^ 2) +
                              toDouble ((toDouble (p_y p - c_y c)) ^ 2))))"

text \<open>
  The callback of \<open>collectibles.filter\<close> (lines 176--190), run over the list from left
  to right. The first component is the filtered list; the second lists the values of
  \<open>newScore\<close> in the order in which they are passed to \<open>setCurrentPlayer\<close> and
  \<open>onScoreUpdate\<close>. \<open>newScore\<close> is computed from \<open>currentPlayer.score\<close>, the
  score of the render the callback closes over, for every collectible of the pass.
\<close>

fun collect :: "player \<Rightarrow> collectible list \<Rightarrow> collectible list \<times> int list" where
  "collect p [] = ([], [])"
| "collect p (c # cs) =
     (if distance p c < 20
      then (fst (collect p cs), (score p + c_value c) # snd (collect p cs))
      else (c # fst (collect p cs), snd (collect p cs)))"

text \<open>
  The queued updaters \<open>prev => ({ ...prev, score: newScore })\<close> are applied in order,
  so the last one decides the score.
\<close>

fun applyScores :: "int list \<Rightarrow> player \<Rightarrow> player" where
  "applyScores [] p = p"
| "applyScores (n # ns) p = applyScores ns (p\<lparr>score := n\<rparr>)"

definition checkCollisions :: "(nat \<Rightarrow> real) \<Rightarrow> nat \<Rightarrow> arena \<Rightarrow> arena" where
  "checkCollisions rnd now s =
     (let newCollectibles = fst (collect (currentPlayer s) (collectibles s));
          newScores = snd (collect (currentPlayer s) (collectibles s));
          s1 = s\<lparr>currentPlayer := applyScores newScores (currentPlayer s),
                 scoreUpdates := scoreUpdates s @ newScores\<rparr>
      in if length newCollectibles \<noteq> length (collectibles s)
         then (if length newCollectibles < 5
               then s1\<lparr>collectibles := newCollectibles @
                         [newCollectible (collectibleId now) (rnd 0) (rnd 1) (rnd 2) (rnd 3)]\<rparr>
               else s1\<lparr>collectibles := newCollectibles\<rparr>)
         else s1)"

subsection \<open>Rendering\<close>

datatype js_error = TypeError

datatype rendering_context = Context2D

definition getContext :: "canvas \<Rightarrow> rendering_context option" where
  "getContext cv = (if context2d cv then Some Context2D else None)"

datatype draw_op =
    FillStyle string
  | StrokeStyle string
  | LineWidth int
  | FillRect real real real real
  | StrokeRect real real real real
  | BeginPath
  | MoveTo real real
  | LineTo real real
  | Stroke
  | Arc real real real real real
  | Fill
  | ShadowColor string
  | ShadowBlur int
  | Font string
  | TextAlign string
  | FillText string real real

text \<open>The two grid loops \<open>for (let i = 0; i < \<dots>; i += 50)\<close> of lines 126--137.\<close>

function gridColumns :: "int \<Rightarrow> canvas \<Rightarrow> draw_op list" where
  "gridColumns i cv =
     (if i < width cv
      then [BeginPath, MoveTo (real_of_int i) 0, LineTo (real_of_int i) (real_of_int (height cv)),
            Stroke] @ gridColumns (i + 50) cv
      else [])"
  by pat_completeness auto
termination
  by (relation "measure (\<lambda>(i, cv). nat (width cv - i))") auto

function gridRows :: "int \<Rightarrow> canvas \<Rightarrow> draw_op list" where
  "gridRows i cv =
     (if i < height cv
      then [BeginPath, MoveTo 0 (real_of_int i), LineTo (real_of_int (width cv)) (real_of_int i),
            Stroke] @ gridRows (i + 50) cv
      else [])"
  by pat_completeness auto
termination
  by (relation "measure (\<lambda>(i, cv). nat (height cv - i))") auto

declare gridColumns.simps [simp del] gridRows.simps [simp del]

definition collectibleColor :: "collectible \<Rightarrow> string" where
  "collectibleColor c = (if c_type c = Coin then ''#fbbf24'' else ''#10b981'')"

definition drawCollectible :: "collectible \<Rightarrow> draw_op list" where
  "drawCollectible c =
     [FillStyle (collectibleColor c), BeginPath,
      Arc (c_x c) (c_y c) 8 0 (toDouble (toDouble pi * 2)), Fill,
      ShadowColor (collectibleColor c), ShadowBlur 10, Fill, ShadowBlur 0]"

text \<open>Lines 114--172: what \<open>render\<close> draws once it holds a canvas and a context.\<close>

definition paint :: "canvas \<Rightarrow> arena \<Rightarrow> draw_op list" where
  "paint cv s =
     [FillStyle ''#1a1a1a'', FillRect 0 0 (real_of_int (width cv)) (real_of_int (height cv)),
      StrokeStyle ''#8b5cf6'', LineWidth 3,
      StrokeRect 0 0 (real_of_int (width cv)) (real_of_int (height cv)),
      StrokeStyle ''#2a2a2a'', LineWidth 1]
     @ gridColumns 0 cv @ gridRows 0 cv
     @ concat (map drawCollectible (collectibles s))
     @ [FillStyle (color (currentPlayer s)), StrokeStyle ''#ffffff'', LineWidth 2, BeginPath,
        Arc (p_x (currentPlayer s)) (p_y (currentPlayer s)) 15 0 (toDouble (toDouble pi * 2)),
        Fill, Stroke,
        ShadowColor (color (currentPlayer s)), ShadowBlur 15, Fill, ShadowBlur 0,
        FillStyle ''#ffffff'', Font ''12px Arial'', TextAlign ''center'',
        FillText (name (currentPlayer s)) (p_x (currentPlayer s))
          (toDouble (p_y (currentPlayer s) - 25))]"

text \<open>
  \<open>canvas?.getContext('2d')\<close> is undefined when the reference is null. Past the
  guard of line 112 the members of \<open>ctx\<close> and \<open>canvas\<close> are used; using a member of
  null or undefined throws \<open>TypeError\<close>.
\<close>

definition render :: "arena \<Rightarrow> js_error + draw_op list" where
  "render s =
     (let canvas = canvasRef s;
          ctx = (case canvas of None \<Rightarrow> None | Some cv \<Rightarrow> getContext cv)
      in if ctx = None \<or> canvas = None then Inr []
         else (case (ctx, canvas) of
                 (Some cx, Some cv) \<Rightarrow> Inr (paint cv s)
               | _ \<Rightarrow> Inl TypeError))"

text \<open>
  One animation frame (lines 101--107): \<open>render\<close>, then \<open>checkCollisions\<close>. The
  result holds what was drawn and the state after the collision check. The frame request
  that ends \<open>gameLoop\<close> is accounted for by \<open>enabled\<close> below.
\<close>

definition gameLoop :: "(nat \<Rightarrow> real) \<Rightarrow> nat \<Rightarrow> arena \<Rightarrow> js_error + draw_op list \<times> arena" where
  "gameLoop rnd now s =
     (case render s of
        Inl e \<Rightarrow> Inl e
      | Inr ops \<Rightarrow> Inr (ops, checkCollisions rnd now s))"

subsection \<open>Pointer, start and end\<close>

record mouse_event =
  clientX :: real
  clientY :: real

record dom_rect =
  rect_left :: real
  rect_top :: real

definition handleMouseMove :: "mouse_event \<Rightarrow> dom_rect \<Rightarrow> arena \<Rightarrow> arena" where
  "handleMouseMove e rect s =
     (if gameState s \<noteq> Playing then s
      else (case canvasRef s of
              None \<Rightarrow> s
            | Some canvas \<Rightarrow>
                (let x = toDouble (clientX e - rect_left rect);
                     y = toDouble (clientY e - rect_top rect)
                 in s\<lparr>currentPlayer := (currentPlayer s)
                        \<lparr>p_x := max 15 (min x (real_of_int (width canvas - 15))),
                         p_y := max 15 (min y (real_of_int (height canvas - 15)))\<rparr>\<rparr>)))"

definition startGame :: "(nat \<Rightarrow> real) \<Rightarrow> arena \<Rightarrow> arena" where
  "startGame rnd s =
     spawnCollectibles rnd
       (s\<lparr>gameState := Playing,
          timeLeft := 60,
          currentPlayer := (currentPlayer s)\<lparr>score := 0, health := 100\<rparr>\<rparr>)"

definition endGame :: "arena \<Rightarrow> arena" where
  "endGame s = s\<lparr>gameState := Ended, gameEnds := gameEnds s @ [score (currentPlayer s)]\<rparr>"

subsection \<open>Countdown effect\<close>

text \<open>
  The body of the effect of lines 75--84, run on a state whose previous timeout has been
  cleared by the effect's cleanup.
\<close>

definition timerEffect :: "arena \<Rightarrow> arena" where
  "timerEffect s =
     (if gameState s = Playing \<and> timeLeft s > 0 then s\<lparr>timer := Some (timeLeft s)\<rparr>
      else if timeLeft s = 0 \<and> gameState s = Playing then endGame s
      else s)"

definition depsChanged :: "arena \<Rightarrow> arena \<Rightarrow> bool" where
  "depsChanged old new \<longleftrightarrow> gameState new \<noteq> gameState old \<or> timeLeft new \<noteq> timeLeft old"

text \<open>
  React commits the state \<open>new\<close> after the render of \<open>old\<close>: when a dependency of
  the effect (\<open>[gameState, timeLeft]\<close>) differs, the cleanup clears the pending timeout
  and the body runs; the body's own update (\<open>endGame\<close>) is committed the same way.
\<close>

function commit :: "arena \<Rightarrow> arena \<Rightarrow> arena" where
  "commit old new =
     (if depsChanged old new then commit new (timerEffect (new\<lparr>timer := None\<rparr>)) else new)"
  by pat_completeness auto
termination
  by (relation "measure (\<lambda>(old, new).
        if depsChanged old new
        then (if gameState new = Playing \<and> timeLeft new = 0 then 2 else 1)
        else 0)")
     (auto simp: depsChanged_def timerEffect_def endGame_def)

declare commit.simps [simp del]

subsection \<open>Mounting and events\<close>

definition initial :: "player \<Rightarrow> canvas option \<Rightarrow> arena" where
  "initial p cv =
     \<lparr>gameState = Waiting, currentPlayer = p, collectibles = [], timeLeft = 60,
      canvasRef = cv, timer = None, scoreUpdates = [], gameEnds = []\<rparr>"

text \<open>The effect of lines 47--60, and the countdown effect of the first render.\<close>

definition mountEffect :: "(nat \<Rightarrow> real) \<Rightarrow> arena \<Rightarrow> arena" where
  "mountEffect rnd s =
     (case canvasRef s of
        None \<Rightarrow> s
      | Some canvas \<Rightarrow>
          (case getContext canvas of
             None \<Rightarrow> s
           | Some ctx \<Rightarrow>
               spawnCollectibles rnd (s\<lparr>canvasRef := Some (canvas\<lparr>width := 600, height := 400\<rparr>)\<rparr>)))"

definition mount :: "player \<Rightarrow> canvas option \<Rightarrow> (nat \<Rightarrow> real) \<Rightarrow> arena" where
  "mount p cv rnd = mountEffect rnd (timerEffect (initial p cv))"

datatype event =
    Start "nat \<Rightarrow> real"
  | MouseMove mouse_event dom_rect
  | Frame "nat \<Rightarrow> real" nat
  | Timeout

text \<open>
  \<open>startGame\<close> is bound to the buttons of the waiting and ended overlays (lines 272
  and 285) and does not look at the state: it is taken to be callable in every state,
  which includes a restart while playing. A frame is requested only while playing and
  cancelled by the cleanup of the effect of lines 63--72; a timeout fires only while it
  is pending.
\<close>

fun enabled :: "event \<Rightarrow> arena \<Rightarrow> bool" where
  "enabled (Start rnd) s = True"
| "enabled (MouseMove e rect) s = True"
| "enabled (Frame rnd now) s = (gameState s = Playing)"
| "enabled Timeout s = (timer s \<noteq> None)"

fun fire :: "event \<Rightarrow> arena \<Rightarrow> arena" where
  "fire (Start rnd) s = commit s (startGame rnd s)"
| "fire (MouseMove e rect) s = commit s (handleMouseMove e rect s)"
| "fire (Frame rnd now) s =
     (case gameLoop rnd now s of
        Inl err \<Rightarrow> s
      | Inr (ops, s') \<Rightarrow> commit s s')"
| "fire Timeout s =
     (case timer s of
        None \<Rightarrow> s
      | Some t \<Rightarrow> commit s (s\<lparr>timeLeft := t - 1, timer := None\<rparr>))"

inductive reachable :: "arena \<Rightarrow> bool" where
  reachable_mount: "reachable (mount p cv rnd)"
| reachable_fire: "reachable s \<Longrightarrow> enabled e s \<Longrightarrow> reachable (fire e s)"

subsection \<open>Auxiliary notions\<close>

text \<open>The collectibles a collision check consumes, and the point values the code generates.\<close>

definition hits :: "arena \<Rightarrow> collectible list" where
  "hits s = filter (\<lambda>c. distance (currentPlayer s) c < 20) (collectibles s)"

definition pointValue :: "collectible \<Rightarrow> bool" where
  "pointValue c \<longleftrightarrow> c_value c = 10 \<or> c_value c = 50"

definition timerInv :: "arena \<Rightarrow> bool" where
  "timerInv s \<longleftrightarrow>
     0 \<le> timeLeft s \<and> timeLeft s \<le> 60 \<and>
     (if gameState s = Playing then 0 < timeLeft s \<and> timer s = Some (timeLeft s)
      else timer s = None)"

definition valuesInv :: "arena \<Rightarrow> bool" where
  "valuesInv s \<longleftrightarrow> list_all pointValue (collectibles s)"

definition surfaceUnavailable :: "arena \<Rightarrow> bool" where
  "surfaceUnavailable s = (case canvasRef s of None \<Rightarrow> True | Some cv \<Rightarrow> getContext cv = None)"

fun isStart :: "event \<Rightarrow> bool" where
  "isStart (Start rnd) = True"
| "isStart e = False"

fun isTimeout :: "event \<Rightarrow> bool" where
  "isTimeout Timeout = True"
| "isTimeout e = False"

subsection \<open>A sample round\<close>

text \<open>
  The player as the host page creates it (centre of the arena, score 0), a canvas with
  the default size of the element, and two sequences of draws: \<open>clusterRnd\<close> puts
  the first seven collectibles of a spawn on the centre and the other three in a corner;
  \<open>mixedRnd\<close> draws 0.8 for the kind and 0.5 for everything else.
\<close>

definition hostPlayer :: player where
  "hostPlayer =
     \<lparr>p_id = ''player-1'', nftId = ''nft-1'', p_x = 300, p_y = 200, score = 0, health = 100,
      color = ''#8b5cf6'', name = ''Hero''\<rparr>"

definition hostCanvas :: canvas where
  "hostCanvas = \<lparr>width = 300, height = 150, context2d = True\<rparr>"

definition clusterRnd :: "nat \<Rightarrow> real" where
  "clusterRnd i = (if i < 28 then 1 / 2 else 0)"

definition mixedRnd :: "nat \<Rightarrow> real" where
  "mixedRnd i = (if i = 2 then 4 / 5 else 1 / 2)"

definition arenaStarted :: arena where
  "arenaStarted = fire (Start clusterRnd) (mount hostPlayer (Some hostCanvas) clusterRnd)"

definition arenaScored :: arena where
  "arenaScored = fire (Frame mixedRnd 1000) arenaStarted"

definition arenaLastSecond :: arena where
  "arenaLastSecond = (fire Timeout ^^ 59) arenaScored"

definition arenaEnded :: arena where
  "arenaEnded = fire Timeout arenaLastSecond"

text \<open>
  A collectible at (319.99330266414484, 199.48245910316282), given by the exact values of
  the two doubles, alone in the arena of the started round.
\<close>

definition boundaryCollectible :: collectible where
  "boundaryCollectible =
     \<lparr>c_id = collectibleId 0, c_x = 2814690856717377 / 2 ^ 43,
      c_y = 7018665066280893 / 2 ^ 45, c_type = Coin, c_value = 10\<rparr>"

definition arenaBoundary :: arena where
  "arenaBoundary = arenaStarted\<lparr>collectibles := [boundaryCollectible]\<rparr>"

definition arenaNoCanvas :: arena where
  "arenaNoCanvas = arenaStarted\<lparr>canvasRef := None\<rparr>"

definition pointerOutside :: mouse_event where
  "pointerOutside = \<lparr>clientX = 1000, clientY = - 50\<rparr>"

definition canvasRect :: dom_rect where
  "canvasRect = \<lparr>rect_left = 10, rect_top = 20\<rparr>"

declare fire.simps [simp del]

section \<open>Properties\<close>

subsection \<open>Rounding to doubles\<close>

lemma roundEven_of_int [simp]: "roundEven (of_int n) = n"
  by (simp add: roundEven_def)

lemma roundEven_near:
  assumes "of_int n - 1 / 2 < q" "q < of_int n + 1 / 2"
  shows "roundEven q = n"
proof -
  have "\<lfloor>q\<rfloor> = n \<or> \<lfloor>q\<rfloor> = n - 1" using assms by linarith
  then show ?thesis
  proof
    assume f: "\<lfloor>q\<rfloor> = n"
    then have "q - of_int \<lfloor>q\<rfloor> < 1 / 2" using assms by simp
    with f show ?thesis by (simp add: roundEven_def)
  next
    assume f: "\<lfloor>q\<rfloor> = n - 1"
    then have "1 / 2 < q - of_int \<lfloor>q\<rfloor>" using assms by simp
    with f show ?thesis by (simp add: roundEven_def)
  qed
qed

lemma roundEven_error: "\<bar>of_int (roundEven q) - q\<bar> \<le> 1 / 2"
  unfolding roundEven_def by (auto; linarith)

lemma roundEven_ge: "of_int n \<le> q \<Longrightarrow> n \<le> roundEven q"
proof -
  assume "of_int n \<le> q"
  then have "n \<le> \<lfloor>q\<rfloor>" by (simp add: le_floor_iff)
  then show ?thesis by (auto simp add: roundEven_def)
qed

lemma roundEven_le: "q \<le> of_int n \<Longrightarrow> roundEven q \<le> n"
proof -
  assume q: "q \<le> of_int n"
  show ?thesis
  proof (cases "q = of_int n")
    case True
    then show ?thesis by simp
  next
    case False
    with q have "q < of_int n" by simp
    then have "\<lfloor>q\<rfloor> < n" by (simp add: floor_less_iff)
    then show ?thesis by (auto simp add: roundEven_def)
  qed
qed

lemma ulp_pos [simp]: "0 < ulp x"
  by (simp add: ulp_def)

lemma ulp_binade:
  assumes "2 powr of_int e \<le> \<bar>x\<bar>" "\<bar>x\<bar> < 2 powr of_int (e + 1)" "- 1022 \<le> e"
  shows "ulp x = 2 powr of_int (e - 52)"
proof -
  have "0 < \<bar>x\<bar>" using assms(1) by (smt (verit) powr_gt_zero)
  then have "\<lfloor>log 2 \<bar>x\<bar>\<rfloor> = e"
    using assms by (simp add: floor_log_eq_powr_iff)
  with assms(3) show ?thesis by (simp add: ulp_def max_def)
qed

lemma toDouble_binade:
  assumes "2 powr of_int e \<le> \<bar>x\<bar>" "\<bar>x\<bar> < 2 powr of_int (e + 1)" "- 1022 \<le> e"
  shows "toDouble x = of_int (roundEven (x / 2 powr of_int (e - 52))) * 2 powr of_int (e - 52)"
proof -
  have "x \<noteq> 0" using assms(1) by (smt (verit) powr_gt_zero)
  then show ?thesis by (simp add: toDouble_def ulp_binade [OF assms])
qed

lemma toDouble_0 [simp]: "toDouble 0 = 0"
  by (simp add: toDouble_def)

lemma toDouble_error_ulp: "\<bar>toDouble x - x\<bar> \<le> ulp x / 2"
proof (cases "x = 0")
  case True
  then show ?thesis by (simp add: less_imp_le)
next
  case False
  have "\<bar>of_int (roundEven (x / ulp x)) - x / ulp x\<bar> \<le> 1 / 2" by (rule roundEven_error)
  then have "\<bar>of_int (roundEven (x / ulp x)) - x / ulp x\<bar> * ulp x \<le> 1 / 2 * ulp x"
    by (rule mult_right_mono) (simp add: less_imp_le)
  moreover have "\<bar>of_int (roundEven (x / ulp x)) - x / ulp x\<bar> * ulp x
      = \<bar>of_int (roundEven (x / ulp x)) * ulp x - x\<bar>"
  proof -
    have "\<bar>of_int (roundEven (x / ulp x)) - x / ulp x\<bar> * ulp x
        = \<bar>(of_int (roundEven (x / ulp x)) - x / ulp x) * ulp x\<bar>"
      by (simp add: abs_mult less_imp_le)
    also have "(of_int (roundEven (x / ulp x)) - x / ulp x) * ulp x
        = of_int (roundEven (x / ulp x)) * ulp x - x"
    proof -
      have "ulp x \<noteq> 0" by (simp add: ulp_def)
      then show ?thesis by (simp add: left_diff_distrib)
    qed
    finally show ?thesis .
  qed
  ultimately show ?thesis using False by (simp add: toDouble_def)
qed

lemma powr_sub52: "(2::real) powr of_int (e - 52) = 2 powr of_int e / 2 ^ 52"
  by (simp add: powr_diff)

lemma binade_exists:
  assumes "x \<noteq> 0" and "e = \<lfloor>log 2 \<bar>x\<bar>\<rfloor>"
  shows "2 powr of_int e \<le> \<bar>x\<bar>" "\<bar>x\<bar> < 2 powr of_int (e + 1)"
proof -
  have "0 < \<bar>x\<bar>" using assms by simp
  then have "2 powr of_int e \<le> \<bar>x\<bar> \<and> \<bar>x\<bar> < 2 powr of_int (e + 1)"
    using floor_log_eq_powr_iff [of "\<bar>x\<bar>" 2 e] assms(2) by simp
  then show "2 powr of_int e \<le> \<bar>x\<bar>" "\<bar>x\<bar> < 2 powr of_int (e + 1)" by simp_all
qed

lemma ulp_le:
  assumes x: "x \<noteq> 0"
  shows "ulp x \<le> \<bar>x\<bar> / 2 ^ 52 + 1 / 2 ^ 1074"
proof -
  define e where "e = \<lfloor>log 2 \<bar>x\<bar>\<rfloor>"
  have u: "ulp x = 2 powr of_int (max e (- 1022) - 52)"
    unfolding e_def ulp_def ..
  show ?thesis
  proof (cases "e < - 1022")
    case True
    then have "max e (- 1022) - 52 = - 1074" by (simp add: max_def)
    then have "ulp x = 2 powr (- 1074)" using u by simp
    also have "\<dots> = 1 / 2 ^ 1074" by (simp add: powr_minus_divide)
    finally show ?thesis by simp
  next
    case False
    then have "max e (- 1022) = e" by (simp add: max_def)
    then have "ulp x = 2 powr of_int (e - 52)" using u by simp
    also have "\<dots> = 2 powr of_int e / 2 ^ 52" by (rule powr_sub52)
    also have "\<dots> \<le> \<bar>x\<bar> / 2 ^ 52"
      using binade_exists(1) [OF x e_def] by (simp add: divide_right_mono)
    finally show ?thesis by simp
  qed
qed

lemma toDouble_error: "\<bar>toDouble x - x\<bar> \<le> \<bar>x\<bar> / 2 ^ 53 + 1 / 2 ^ 1075"
proof (cases "x = 0")
  case True
  then show ?thesis by simp
next
  case False
  have "\<bar>toDouble x - x\<bar> \<le> ulp x / 2" by (rule toDouble_error_ulp)
  also have "\<dots> \<le> (\<bar>x\<bar> / 2 ^ 52 + 1 / 2 ^ 1074) / 2"
    using ulp_le [OF False] by simp
  also have "\<dots> = \<bar>x\<bar> / 2 ^ 53 + 1 / 2 ^ 1075" by simp
  finally show ?thesis .
qed

lemma toDouble_exact:
  assumes "2 powr of_int e \<le> \<bar>x\<bar>" "\<bar>x\<bar> < 2 powr of_int (e + 1)" "- 1022 \<le> e"
    and "x = of_int m * 2 powr of_int (e - 52)"
  shows "toDouble x = x"
proof -
  have "x / 2 powr of_int (e - 52) = of_int m" using assms(4) by simp
  then show ?thesis using toDouble_binade [OF assms(1-3)] assms(4) by simp
qed

lemma toDouble_of_int:
  assumes "\<bar>n\<bar> < 2 ^ 53"
  shows "toDouble (of_int n) = of_int n"
proof (cases "n = 0")
  case True
  then show ?thesis by simp
next
  case False
  define x :: real where "x = of_int n"
  define e where "e = \<lfloor>log 2 \<bar>x\<bar>\<rfloor>"
  have x: "x \<noteq> 0" using False by (simp add: x_def)
  note b = binade_exists [OF x e_def]
  have "1 \<le> \<bar>n\<bar>" using False by simp
  then have "(1::real) \<le> of_int \<bar>n\<bar>" by (simp only: of_int_1_le_iff)
  then have x1: "1 \<le> \<bar>x\<bar>" by (simp add: x_def)
  then have "0 \<le> log 2 \<bar>x\<bar>" by simp
  then have e0: "0 \<le> e" by (simp add: e_def)
  have "(of_int \<bar>n\<bar> :: real) < of_int (2 ^ 53)" using assms by (simp only: of_int_less_iff)
  then have "\<bar>x\<bar> < 2 ^ 53" by (simp add: x_def)
  then have "\<bar>x\<bar> < 2 powr 53" by simp
  then have "log 2 \<bar>x\<bar> < 53" using x by (simp add: log_less_iff)
  then have "e < 53" by (simp add: e_def floor_less_iff)
  then have e1: "e \<le> 52" by linarith
  define k where "k = nat (52 - e)"
  have k: "int k = 52 - e" using e1 by (simp add: k_def)
  have "2 powr of_int (e - 52) = (1::real) / 2 ^ k"
  proof -
    have "e - 52 = - int k" using k by linarith
    then have "(2::real) powr of_int (e - 52) = 2 powr (- real k)" by simp
    also have "\<dots> = 1 / 2 powr real k" by (simp add: powr_minus_divide)
    also have "\<dots> = 1 / 2 ^ k" by (simp add: powr_realpow)
    finally show ?thesis .
  qed
  then have m: "x = of_int (n * 2 ^ k) * 2 powr of_int (e - 52)" by (simp add: x_def)
  have e2: "- 1022 \<le> e" using e0 by linarith
  have "toDouble x = x" by (rule toDouble_exact [OF b e2 m])
  then show ?thesis by (simp add: x_def)
qed

lemma toDouble_ge_pow2:
  assumes "2 powr of_int k \<le> x" "- 1022 \<le> k"
  shows "2 powr of_int k \<le> toDouble x"
proof -
  have xp: "0 < x" using assms(1) by (smt (verit) powr_gt_zero)
  define e where "e = \<lfloor>log 2 \<bar>x\<bar>\<rfloor>"
  have x: "x \<noteq> 0" using xp by simp
  note b = binade_exists [OF x e_def]
  have "of_int k \<le> log 2 x" using assms(1) xp by (simp add: le_log_iff)
  then have ke: "k \<le> e" using xp by (simp add: e_def le_floor_iff)
  then have e: "- 1022 \<le> e" using assms(2) by linarith
  define u :: real where "u = 2 powr of_int (e - 52)"
  have up: "0 < u" by (simp add: u_def)
  have f: "toDouble x = of_int (roundEven (x / u)) * u"
    unfolding u_def by (rule toDouble_binade [OF b e])
  have eu: "2 powr of_int e = of_int (2 ^ 52) * u"
    unfolding u_def powr_sub52 by simp
  have "of_int (2 ^ 52) * u \<le> x" using b(1) xp eu by simp
  then have "of_int (2 ^ 52) \<le> x / u" using up by (simp add: pos_le_divide_eq)
  then have "2 ^ 52 \<le> roundEven (x / u)" by (rule roundEven_ge)
  then have "of_int (2 ^ 52) \<le> (of_int (roundEven (x / u)) :: real)"
    by (simp only: of_int_le_iff)
  then have "of_int (2 ^ 52) * u \<le> of_int (roundEven (x / u)) * u"
    using up by (simp only: mult_le_cancel_right_pos)
  then have "2 powr of_int e \<le> toDouble x" using f eu by simp
  moreover have "2 powr of_int k \<le> (2::real) powr of_int e"
    using ke by simp
  ultimately show ?thesis by linarith
qed

lemma toDouble_round:
  assumes "2 powr of_int e \<le> \<bar>x\<bar>" "\<bar>x\<bar> < 2 powr of_int (e + 1)" "- 1022 \<le> e"
    and "(of_int n - 1 / 2) * 2 powr of_int (e - 52) < x"
    and "x < (of_int n + 1 / 2) * 2 powr of_int (e - 52)"
  shows "toDouble x = of_int n * 2 powr of_int (e - 52)"
proof -
  define u :: real where "u = 2 powr of_int (e - 52)"
  have up: "0 < u" by (simp add: u_def)
  have "of_int n - 1 / 2 < x / u" using assms(4) up by (simp add: u_def pos_less_divide_eq)
  moreover have "x / u < of_int n + 1 / 2" using assms(5) up by (simp add: u_def pos_divide_less_eq)
  ultimately have "roundEven (x / u) = n" by (rule roundEven_near)
  then show ?thesis using toDouble_binade [OF assms(1-3)] by (simp add: u_def)
qed

lemma toDouble_nonneg: "0 \<le> x \<Longrightarrow> 0 \<le> toDouble x"
proof (cases "x = 0")
  case True
  then show ?thesis by simp
next
  case False
  assume "0 \<le> x"
  then have "of_int 0 \<le> x / ulp x" using ulp_pos [of x] by (simp add: less_imp_le)
  then have "0 \<le> roundEven (x / ulp x)" by (rule roundEven_ge)
  then have "0 \<le> (of_int (roundEven (x / ulp x)) :: real)" by simp
  then have "0 \<le> of_int (roundEven (x / ulp x)) * ulp x"
    using ulp_pos [of x] by (simp add: less_imp_le)
  with False show ?thesis by (simp add: toDouble_def)
qed

lemma toDouble_error_bound:
  assumes "\<bar>x\<bar> \<le> B"
  shows "\<bar>toDouble x - x\<bar> \<le> B / 2 ^ 53 + 1 / 2 ^ 1075"
proof -
  have "\<bar>x\<bar> / 2 ^ 53 \<le> B / 2 ^ 53" using assms by (simp add: divide_right_mono)
  then show ?thesis using toDouble_error [of x] by linarith
qed

lemma toDouble_error_small:
  assumes "\<bar>x\<bar> \<le> 2000002"
  shows "\<bar>toDouble x - x\<bar> \<le> 3 / 10000000000"
proof -
  have "(2000002::real) / 2 ^ 53 + 1 / 2 ^ 1075 \<le> 3 / 10000000000" by simp
  then show ?thesis using toDouble_error_bound [OF assms] by linarith
qed

lemma toDouble_error_smaller:
  assumes "\<bar>x\<bar> \<le> 2000"
  shows "\<bar>toDouble x - x\<bar> \<le> 1 / 1000000000000"
proof -
  have "(2000::real) / 2 ^ 53 + 1 / 2 ^ 1075 \<le> 1 / 1000000000000" by simp
  then show ?thesis using toDouble_error_bound [OF assms] by linarith
qed

lemma square_error:
  assumes "\<bar>D\<bar> \<le> 1000"
  shows "\<bar>toDouble ((toDouble D)\<^sup>2) - D\<^sup>2\<bar> \<le> 4 / 1000000000"
    and "0 \<le> toDouble ((toDouble D)\<^sup>2)"
    and "toDouble ((toDouble D)\<^sup>2) \<le> 1000001"
proof -
  define d where "d = toDouble D"
  have "\<bar>D\<bar> \<le> 2000" using assms by linarith
  then have h1: "\<bar>d - D\<bar> \<le> 1 / 1000000000000"
    unfolding d_def by (rule toDouble_error_smaller)
  then have h2: "\<bar>d + D\<bar> \<le> 2001" using assms by linarith
  have "\<bar>d\<^sup>2 - D\<^sup>2\<bar> = \<bar>d - D\<bar> * \<bar>d + D\<bar>"
    by (simp add: power2_eq_square abs_mult [symmetric] algebra_simps)
  also have "\<dots> \<le> 1 / 1000000000000 * 2001"
    by (rule mult_mono [OF h1 h2]) simp_all
  finally have h3: "\<bar>d\<^sup>2 - D\<^sup>2\<bar> \<le> 3 / 1000000000" by linarith
  have "\<bar>D\<bar> * \<bar>D\<bar> \<le> 1000 * 1000"
    by (rule mult_mono [OF assms assms]) simp_all
  then have D2: "D\<^sup>2 \<le> 1000000" by (simp add: power2_eq_square abs_mult [symmetric])
  have D0: "0 \<le> D\<^sup>2" by simp
  have d0: "0 \<le> d\<^sup>2" by simp
  have h4: "\<bar>d\<^sup>2\<bar> \<le> 2000002" using h3 D2 D0 by linarith
  have h5: "\<bar>toDouble (d\<^sup>2) - d\<^sup>2\<bar> \<le> 3 / 10000000000"
    by (rule toDouble_error_small [OF h4])
  show "\<bar>toDouble ((toDouble D)\<^sup>2) - D\<^sup>2\<bar> \<le> 4 / 1000000000"
    using h3 h5 unfolding d_def by linarith
  show "0 \<le> toDouble ((toDouble D)\<^sup>2)" by (rule toDouble_nonneg) simp
  show "toDouble ((toDouble D)\<^sup>2) \<le> 1000001" using h3 h5 D2 unfolding d_def by linarith
qed

lemma sum_squares_error:
  assumes "\<bar>D1\<bar> \<le> 1000" "\<bar>D2\<bar> \<le> 1000"
  shows "\<bar>toDouble (toDouble ((toDouble D1)\<^sup>2) + toDouble ((toDouble D2)\<^sup>2)) - (D1\<^sup>2 + D2\<^sup>2)\<bar> \<le> 1 / 100000000"
    and "0 \<le> toDouble (toDouble ((toDouble D1)\<^sup>2) + toDouble ((toDouble D2)\<^sup>2))"
    and "toDouble (toDouble ((toDouble D1)\<^sup>2) + toDouble ((toDouble D2)\<^sup>2)) \<le> 2000003"
proof -
  define a where "a = toDouble ((toDouble D1)\<^sup>2)"
  define b where "b = toDouble ((toDouble D2)\<^sup>2)"
  note A = square_error [OF assms(1), folded a_def]
  note B = square_error [OF assms(2), folded b_def]
  have ab: "\<bar>a + b\<bar> \<le> 2000002" using A(2,3) B(2,3) by linarith
  have h: "\<bar>toDouble (a + b) - (a + b)\<bar> \<le> 3 / 10000000000"
    by (rule toDouble_error_small [OF ab])
  show "\<bar>toDouble (toDouble ((toDouble D1)\<^sup>2) + toDouble ((toDouble D2)\<^sup>2)) - (D1\<^sup>2 + D2\<^sup>2)\<bar> \<le> 1 / 100000000"
    using h A(1) B(1) unfolding a_def b_def by linarith
  have "0 \<le> a + b" using A(2) B(2) by linarith
  then show "0 \<le> toDouble (toDouble ((toDouble D1)\<^sup>2) + toDouble ((toDouble D2)\<^sup>2))"
    unfolding a_def b_def by (rule toDouble_nonneg)
  show "toDouble (toDouble ((toDouble D1)\<^sup>2) + toDouble ((toDouble D2)\<^sup>2)) \<le> 2000003"
    using h ab unfolding a_def b_def by linarith
qed

lemma computed_distance_tolerance:
  assumes "\<bar>D1\<bar> \<le> 1000" "\<bar>D2\<bar> \<le> 1000"
  shows "sqrt (D1\<^sup>2 + D2\<^sup>2) \<le> 20 - 1 / 1000000 \<Longrightarrow>
           toDouble (sqrt (toDouble (toDouble ((toDouble D1)\<^sup>2) + toDouble ((toDouble D2)\<^sup>2)))) < 20"
    and "20 + 1 / 1000000 \<le> sqrt (D1\<^sup>2 + D2\<^sup>2) \<Longrightarrow>
           20 \<le> toDouble (sqrt (toDouble (toDouble ((toDouble D1)\<^sup>2) + toDouble ((toDouble D2)\<^sup>2))))"
proof -
  define S where "S = toDouble (toDouble ((toDouble D1)\<^sup>2) + toDouble ((toDouble D2)\<^sup>2))"
  define E where "E = D1\<^sup>2 + D2\<^sup>2"
  note s = sum_squares_error [OF assms, folded S_def E_def]
  have E0: "0 \<le> E" by (simp add: E_def)
  have "S \<le> 2000\<^sup>2" using s(3) by simp
  then have r2: "sqrt S \<le> 2000" by (intro real_le_lsqrt) simp_all
  have r0: "0 \<le> sqrt S" using s(2) by simp
  have "\<bar>sqrt S\<bar> \<le> 2000" using r0 r2 by linarith
  then have fe: "\<bar>toDouble (sqrt S) - sqrt S\<bar> \<le> 1 / 1000000000000"
    by (rule toDouble_error_smaller)
  have near: "toDouble (sqrt S) < 20" if "sqrt E \<le> 20 - 1 / 1000000"
  proof -
    have "sqrt E * sqrt E \<le> (20 - 1 / 1000000) * (20 - 1 / 1000000)"
      using that E0 by (intro mult_mono) simp_all
    then have "E \<le> (20 - 1 / 1000000) * (20 - 1 / 1000000)" using E0 by simp
    then have "E \<le> 400 - 39 / 1000000" by simp
    then have "S < 400 - 38 / 1000000" using s(1) by linarith
    moreover have "(400::real) - 38 / 1000000 \<le> (20 - 1 / 10000000)\<^sup>2"
      by (simp add: power2_eq_square)
    ultimately have "S < (20 - 1 / 10000000)\<^sup>2" by linarith
    then have "sqrt S < 20 - 1 / 10000000" by (intro real_less_lsqrt) simp_all
    then show ?thesis using fe by linarith
  qed
  have far: "20 \<le> toDouble (sqrt S)" if "20 + 1 / 1000000 \<le> sqrt E"
  proof -
    have "0 \<le> sqrt E" using E0 by simp
    then have "(20 + 1 / 1000000) * (20 + 1 / 1000000) \<le> sqrt E * sqrt E"
      using that by (intro mult_mono) simp_all
    then have "(20 + 1 / 1000000) * (20 + 1 / 1000000) \<le> E" using E0 by simp
    then have "400 + 40 / 1000000 \<le> E" by simp
    then have "400 + 39 / 1000000 \<le> S" using s(1) by linarith
    moreover have "(20 + 1 / 10000000)\<^sup>2 \<le> (400::real) + 39 / 1000000"
      by (simp add: power2_eq_square)
    ultimately have "(20 + 1 / 10000000)\<^sup>2 \<le> S" by linarith
    then have "20 + 1 / 10000000 \<le> sqrt S" by (rule real_le_rsqrt)
    then show ?thesis using fe by linarith
  qed
  show "sqrt (D1\<^sup>2 + D2\<^sup>2) \<le> 20 - 1 / 1000000 \<Longrightarrow>
           toDouble (sqrt (toDouble (toDouble ((toDouble D1)\<^sup>2) + toDouble ((toDouble D2)\<^sup>2)))) < 20"
    using near by (simp add: S_def E_def)
  show "20 + 1 / 1000000 \<le> sqrt (D1\<^sup>2 + D2\<^sup>2) \<Longrightarrow>
           20 \<le> toDouble (sqrt (toDouble (toDouble ((toDouble D1)\<^sup>2) + toDouble ((toDouble D2)\<^sup>2))))"
    using far by (simp add: S_def E_def)
qed

subsection \<open>Effects and commits\<close>

lemma commit_unchanged: "\<not> depsChanged old new \<Longrightarrow> commit old new = new"
  by (simp add: commit.simps [of old new])

lemma commit_changed:
  "depsChanged old new \<Longrightarrow> commit old new = commit new (timerEffect (new\<lparr>timer := None\<rparr>))"
  by (simp add: commit.simps [of old new])

lemma commit_eq:
  "commit old new =
     (if depsChanged old new
      then (if gameState new = Playing \<and> timeLeft new > 0 then new\<lparr>timer := Some (timeLeft new)\<rparr>
            else if gameState new = Playing \<and> timeLeft new = 0
                 then endGame (new\<lparr>timer := None\<rparr>)
                 else new\<lparr>timer := None\<rparr>)
      else new)"
proof (cases "depsChanged old new")
  case False
  then show ?thesis by (simp add: commit_unchanged)
next
  case True
  let ?n = "new\<lparr>timer := None\<rparr>"
  consider (run) "gameState new = Playing" "timeLeft new > 0"
    | (stop) "gameState new = Playing" "timeLeft new = 0"
    | (idle) "\<not> (gameState new = Playing \<and> timeLeft new \<ge> 0)"
    by fastforce
  then show ?thesis
  proof cases
    case run
    then have "timerEffect ?n = new\<lparr>timer := Some (timeLeft new)\<rparr>"
      by (simp add: timerEffect_def)
    moreover have "\<not> depsChanged new (new\<lparr>timer := Some (timeLeft new)\<rparr>)"
      by (simp add: depsChanged_def)
    ultimately show ?thesis using True run by (simp add: commit_changed commit_unchanged)
  next
    case stop
    then have e: "timerEffect ?n = endGame ?n"
      by (simp add: timerEffect_def)
    have d: "depsChanged new (endGame ?n)" using stop by (simp add: depsChanged_def endGame_def)
    have "timerEffect ((endGame ?n)\<lparr>timer := None\<rparr>) = endGame ?n"
      by (simp add: timerEffect_def endGame_def)
    moreover have "\<not> depsChanged (endGame ?n) (endGame ?n)" by (simp add: depsChanged_def)
    ultimately have "commit new (endGame ?n) = endGame ?n"
      using d by (simp add: commit_changed commit_unchanged)
    then show ?thesis using True stop e by (simp add: commit_changed)
  next
    case idle
    then have "timerEffect ?n = ?n" by (auto simp add: timerEffect_def)
    moreover have "\<not> depsChanged new ?n" by (simp add: depsChanged_def)
    ultimately show ?thesis using True idle by (auto simp add: commit_changed commit_unchanged)
  qed
qed

lemma distance_near:
  assumes "\<bar>p_x p - c_x c\<bar> \<le> 1000" "\<bar>p_y p - c_y c\<bar> \<le> 1000"
    and "sqrt ((p_x p - c_x c)\<^sup>2 + (p_y p - c_y c)\<^sup>2) \<le> 20 - 1 / 1000000"
  shows "distance p c < 20"
  unfolding distance_def by (rule computed_distance_tolerance(1) [OF assms])

lemma distance_far:
  assumes "\<bar>p_x p - c_x c\<bar> \<le> 1000" "\<bar>p_y p - c_y c\<bar> \<le> 1000"
    and "20 + 1 / 1000000 \<le> sqrt ((p_x p - c_x c)\<^sup>2 + (p_y p - c_y c)\<^sup>2)"
  shows "\<not> distance p c < 20"
  using computed_distance_tolerance(2) [OF assms] unfolding distance_def by simp

lemma distance_near_sq:
  assumes "\<bar>p_x p - c_x c\<bar> \<le> 1000" "\<bar>p_y p - c_y c\<bar> \<le> 1000"
    and "(p_x p - c_x c)\<^sup>2 + (p_y p - c_y c)\<^sup>2 \<le> 399"
  shows "distance p c < 20"
proof -
  have "(399::real) \<le> (20 - 1 / 1000000)\<^sup>2" by (simp add: power2_eq_square)
  with assms(3) have "(p_x p - c_x c)\<^sup>2 + (p_y p - c_y c)\<^sup>2 \<le> (20 - 1 / 1000000)\<^sup>2"
    by linarith
  then have "sqrt ((p_x p - c_x c)\<^sup>2 + (p_y p - c_y c)\<^sup>2) \<le> 20 - 1 / 1000000"
    by (intro real_le_lsqrt) simp_all
  then show ?thesis by (rule distance_near [OF assms(1,2)])
qed

lemma distance_far_sq:
  assumes "\<bar>p_x p - c_x c\<bar> \<le> 1000" "\<bar>p_y p - c_y c\<bar> \<le> 1000"
    and "401 \<le> (p_x p - c_x c)\<^sup>2 + (p_y p - c_y c)\<^sup>2"
  shows "\<not> distance p c < 20"
proof -
  have "(20 + 1 / 1000000)\<^sup>2 \<le> (401::real)" by (simp add: power2_eq_square)
  with assms(3) have "(20 + 1 / 1000000)\<^sup>2 \<le> (p_x p - c_x c)\<^sup>2 + (p_y p - c_y c)\<^sup>2"
    by linarith
  then have "20 + 1 / 1000000 \<le> sqrt ((p_x p - c_x c)\<^sup>2 + (p_y p - c_y c)\<^sup>2)"
    by (rule real_le_rsqrt)
  then show ?thesis by (rule distance_far [OF assms(1,2)])
qed

lemma toDouble_consts:
  "toDouble 25 = 25" "toDouble 175 = 175" "toDouble 200 = 200" "toDouble 275 = 275"
  "toDouble 300 = 300" "toDouble 990 = 990" "toDouble (- 70) = - 70"
  using toDouble_of_int [of 25] toDouble_of_int [of 175] toDouble_of_int [of 200]
    toDouble_of_int [of 275] toDouble_of_int [of 300] toDouble_of_int [of 990]
    toDouble_of_int [of "- 70"]
  by simp_all

lemma toDouble_threshold:
  "\<not> toDouble (7 / 10) < 1 / 2" "\<not> toDouble (7 / 10) < 0" "toDouble (7 / 10) < 4 / 5"
  "\<not> toDouble (7 / 10) * 2 < 1" "toDouble (7 / 10) * 5 < 4"
proof -
  have "2 powr of_int (- 1) \<le> toDouble (7 / 10)"
    by (rule toDouble_ge_pow2) (simp_all add: powr_minus_divide)
  then have lo: "1 / 2 \<le> toDouble (7 / 10)" by (simp add: powr_minus_divide)
  have "\<bar>toDouble (7 / 10) - 7 / 10\<bar> \<le> 1 / 1000000000000"
    by (rule toDouble_error_smaller) simp
  then have hi: "toDouble (7 / 10) < 4 / 5" by linarith
  from lo show "\<not> toDouble (7 / 10) < 1 / 2" "\<not> toDouble (7 / 10) < 0" by linarith+
  from hi show "toDouble (7 / 10) < 4 / 5" .
  from lo show "\<not> toDouble (7 / 10) * 2 < 1" by linarith
  from hi show "toDouble (7 / 10) * 5 < 4" by linarith
qed

lemma length_spawnFrom: "length (spawnFrom i rnd) = 10 - i"
proof (induction i rnd rule: spawnFrom.induct)
  case (1 i rnd)
  show ?case
  proof (cases "i < 10")
    case True
    with 1 show ?thesis by (simp add: spawnFrom.simps [of i])
  next
    case False
    then show ?thesis by (simp add: spawnFrom.simps [of i])
  qed
qed

lemma collect_fst: "fst (collect p cs) = filter (\<lambda>c. 20 \<le> distance p c) cs"
  by (induction cs) (simp_all add: not_less)

lemma spawnFrom_map:
  "spawnFrom i rnd =
     map (\<lambda>k. newCollectible (collectibleId k)
                 (rnd (4 * k)) (rnd (4 * k + 1)) (rnd (4 * k + 2)) (rnd (4 * k + 3))) [i..<10]"
proof (induction i rnd rule: spawnFrom.induct)
  case (1 i rnd)
  show ?case
  proof (cases "i < 10")
    case True
    with 1 show ?thesis by (simp add: spawnFrom.simps [of i] upt_conv_Cons)
  next
    case False
    then show ?thesis by (simp add: spawnFrom.simps [of i])
  qed
qed

lemma newCollectible_pointValue: "pointValue (newCollectible ident r0 r1 r2 r3)"
  by (simp add: pointValue_def newCollectible_def)

lemma spawnFrom_pointValue: "c \<in> set (spawnFrom i rnd) \<Longrightarrow> pointValue c"
  by (auto simp add: spawnFrom_map newCollectible_pointValue)

lemma collect_snd:
  "snd (collect p cs) = map (\<lambda>c. score p + c_value c) (filter (\<lambda>c. distance p c < 20) cs)"
  by (induction cs) simp_all

lemma applyScores_score:
  "score (applyScores ns p) = (if ns = [] then score p else last ns)"
  by (induction ns arbitrary: p) simp_all

lemma applyScores_pos [simp]:
  "p_x (applyScores ns p) = p_x p" "p_y (applyScores ns p) = p_y p"
  by (induction ns arbitrary: p) simp_all

lemma checkCollisions_score:
  "score (currentPlayer (checkCollisions rnd now s)) =
     (if hits s = [] then score (currentPlayer s)
      else score (currentPlayer s) + c_value (last (hits s)))"
  by (simp add: checkCollisions_def Let_def collect_snd applyScores_score hits_def last_map)

lemma length_kept:
  "length (filter (\<lambda>c. 20 \<le> distance p c) cs) + length (filter (\<lambda>c. distance p c < 20) cs)
     = length cs"
proof -
  have "filter (\<lambda>c. 20 \<le> distance p c) cs = filter (\<lambda>c. \<not> distance p c < 20) cs"
    by (simp add: not_less)
  then show ?thesis
    using sum_length_filter_compl [of "\<lambda>c. distance p c < 20" cs] by simp
qed

lemma checkCollisions_collectibles:
  "collectibles (checkCollisions rnd now s) =
     filter (\<lambda>c. 20 \<le> distance (currentPlayer s) c) (collectibles s) @
     (if hits s \<noteq> [] \<and> length (collectibles s) - length (hits s) < 5
      then [newCollectible (collectibleId now) (rnd 0) (rnd 1) (rnd 2) (rnd 3)] else [])"
proof -
  let ?kept = "filter (\<lambda>c. 20 \<le> distance (currentPlayer s) c) (collectibles s)"
  have sum: "length ?kept + length (hits s) = length (collectibles s)"
    unfolding hits_def by (rule length_kept)
  have none: "?kept = collectibles s" if "hits s = []"
    using that by (auto simp add: hits_def filter_empty_conv not_less filter_id_conv)
  have neq: "length ?kept \<noteq> length (collectibles s) \<longleftrightarrow> hits s \<noteq> []"
    using sum by (cases "hits s") auto
  have len: "length ?kept = length (collectibles s) - length (hits s)"
    using sum by simp
  have "collectibles (checkCollisions rnd now s) =
          (if length ?kept \<noteq> length (collectibles s)
           then (if length ?kept < 5
                 then ?kept @ [newCollectible (collectibleId now) (rnd 0) (rnd 1) (rnd 2) (rnd 3)]
                 else ?kept)
           else collectibles s)"
    by (simp add: checkCollisions_def Let_def collect_fst)
  then have eq: "collectibles (checkCollisions rnd now s) =
          (if length ?kept \<noteq> length (collectibles s)
           then (if length (collectibles s) - length (hits s) < 5
                 then ?kept @ [newCollectible (collectibleId now) (rnd 0) (rnd 1) (rnd 2) (rnd 3)]
                 else ?kept)
           else collectibles s)"
    using len by simp
  show ?thesis
  proof (cases "hits s = []")
    case True
    then have "length ?kept = length (collectibles s)" using neq by simp
    with eq none True show ?thesis by simp
  next
    case False
    then have "length ?kept \<noteq> length (collectibles s)" using neq by simp
    with eq False show ?thesis by simp
  qed
qed

lemma checkCollisions_other [simp]:
  "gameState (checkCollisions rnd now s) = gameState s"
  "timeLeft (checkCollisions rnd now s) = timeLeft s"
  "timer (checkCollisions rnd now s) = timer s"
  "gameEnds (checkCollisions rnd now s) = gameEnds s"
  "canvasRef (checkCollisions rnd now s) = canvasRef s"
  by (simp_all add: checkCollisions_def Let_def)

lemma render_total: "\<exists>ops. render s = Inr ops"
  by (auto simp add: render_def Let_def split: option.splits)

lemma gameLoop_total: "\<exists>ops. gameLoop rnd now s = Inr (ops, checkCollisions rnd now s)"
  using render_total [of s] by (auto simp add: gameLoop_def)

lemma fire_Frame: "fire (Frame rnd now) s = checkCollisions rnd now s"
  using gameLoop_total [of rnd now s]
  by (auto simp add: fire.simps commit_unchanged depsChanged_def)

lemma fire_MouseMove: "fire (MouseMove e rect) s = handleMouseMove e rect s"
  by (auto simp add: fire.simps commit_unchanged depsChanged_def handleMouseMove_def Let_def
        split: option.splits)


lemma handleMouseMove_other [simp]:
  "gameState (handleMouseMove e rect s) = gameState s"
  "timeLeft (handleMouseMove e rect s) = timeLeft s"
  "timer (handleMouseMove e rect s) = timer s"
  "gameEnds (handleMouseMove e rect s) = gameEnds s"
  "collectibles (handleMouseMove e rect s) = collectibles s"
  "score (currentPlayer (handleMouseMove e rect s)) = score (currentPlayer s)"
  by (simp_all add: handleMouseMove_def Let_def split: option.splits)

lemma fire_Start:
  assumes "timerInv s"
  shows "fire (Start rnd) s = (startGame rnd s)\<lparr>timer := Some 60\<rparr>"
proof (cases "depsChanged s (startGame rnd s)")
  case True
  then show ?thesis
    by (simp add: fire.simps commit_eq startGame_def spawnCollectibles_def)
next
  case False
  then have "gameState s = Playing" "timeLeft s = 60"
    by (simp_all add: depsChanged_def startGame_def spawnCollectibles_def)
  with assms have "timer s = Some 60" by (simp add: timerInv_def)
  then have "(startGame rnd s)\<lparr>timer := Some 60\<rparr> = startGame rnd s"
    by (simp add: startGame_def spawnCollectibles_def)
  with False show ?thesis by (simp add: fire.simps commit_unchanged)
qed

lemma fire_Timeout:
  "timer s = Some t \<Longrightarrow> t = timeLeft s \<Longrightarrow> gameState s = Playing \<Longrightarrow>
   fire Timeout s =
     (if 1 < t then s\<lparr>timeLeft := t - 1, timer := Some (t - 1)\<rparr>
      else if t = 1 then endGame (s\<lparr>timeLeft := 0, timer := None\<rparr>)
      else s\<lparr>timeLeft := t - 1, timer := None\<rparr>)"
  by (auto simp add: fire.simps commit_eq depsChanged_def)

lemma mount_fields [simp]:
  "gameState (mount p cv rnd) = Waiting"
  "timeLeft (mount p cv rnd) = 60"
  "timer (mount p cv rnd) = None"
  "gameEnds (mount p cv rnd) = []"
  by (simp_all add: mount_def mountEffect_def timerEffect_def initial_def spawnCollectibles_def
        split: option.splits)

lemma mount_timerInv: "timerInv (mount p cv rnd)"
  by (simp add: timerInv_def)

lemma mount_collectibles:
  "collectibles (mount p cv rnd) = [] \<or> collectibles (mount p cv rnd) = spawnFrom 0 rnd"
  by (simp add: mount_def mountEffect_def timerEffect_def initial_def spawnCollectibles_def
        split: option.splits)

lemma timerInv_fire: "timerInv s \<Longrightarrow> enabled e s \<Longrightarrow> timerInv (fire e s)"
proof (cases e)
  case (Start rnd)
  assume "timerInv s"
  with Start show ?thesis
    by (simp add: fire_Start) (simp add: timerInv_def startGame_def spawnCollectibles_def)
next
  case (MouseMove ev rect)
  assume "timerInv s"
  with MouseMove show ?thesis by (simp add: fire_MouseMove timerInv_def)
next
  case (Frame rnd now)
  assume "timerInv s"
  with Frame show ?thesis by (simp add: fire_Frame timerInv_def)
next
  case Timeout
  assume inv: "timerInv s" and en: "enabled e s"
  from en Timeout obtain t where t: "timer s = Some t" by auto
  with inv have p: "gameState s = Playing" "t = timeLeft s" "0 < t" "t \<le> 60"
    by (auto simp add: timerInv_def split: if_splits)
  show ?thesis
    using p t Timeout by (auto simp add: fire_Timeout timerInv_def endGame_def)
qed

lemma reachable_timerInv: "reachable s \<Longrightarrow> timerInv s"
proof (induction rule: reachable.induct)
  case (reachable_mount p cv rnd)
  show ?case by (simp add: timerInv_def)
next
  case (reachable_fire s e)
  then show ?case by (simp add: timerInv_fire)
qed

lemma list_all_spawnFrom: "list_all pointValue (spawnFrom i rnd)"
  by (simp add: list_all_iff spawnFrom_pointValue)

lemma commit_collectibles [simp]: "collectibles (commit old new) = collectibles new"
  by (simp add: commit_eq endGame_def)

lemma commit_currentPlayer [simp]: "currentPlayer (commit old new) = currentPlayer new"
  by (simp add: commit_eq endGame_def)

lemma valuesInv_fire: "valuesInv s \<Longrightarrow> valuesInv (fire e s)"
proof (cases e)
  case (Start rnd)
  then show ?thesis
    by (simp add: fire.simps valuesInv_def startGame_def spawnCollectibles_def list_all_spawnFrom)
next
  case (MouseMove ev rect)
  assume "valuesInv s"
  with MouseMove show ?thesis by (simp add: fire_MouseMove valuesInv_def)
next
  case (Frame rnd now)
  assume "valuesInv s"
  with Frame show ?thesis
    by (auto simp add: fire_Frame valuesInv_def checkCollisions_collectibles
          newCollectible_pointValue list_all_iff)
next
  case Timeout
  assume "valuesInv s"
  with Timeout show ?thesis by (simp add: fire.simps valuesInv_def split: option.splits)
qed

lemma reachable_valuesInv: "reachable s \<Longrightarrow> valuesInv s"
proof (induction rule: reachable.induct)
  case (reachable_mount p cv rnd)
  show ?case using mount_collectibles [of p cv rnd]
    by (auto simp add: valuesInv_def list_all_spawnFrom)
next
  case (reachable_fire s e)
  then show ?case by (simp add: valuesInv_fire)
qed

subsection \<open>The sample round\<close>

lemma spawnFrom_0:
  "spawnFrom 0 rnd =
     [newCollectible (collectibleId 0) (rnd 0) (rnd 1) (rnd 2) (rnd 3),
      newCollectible (collectibleId 1) (rnd 4) (rnd 5) (rnd 6) (rnd 7),
      newCollectible (collectibleId 2) (rnd 8) (rnd 9) (rnd 10) (rnd 11),
      newCollectible (collectibleId 3) (rnd 12) (rnd 13) (rnd 14) (rnd 15),
      newCollectible (collectibleId 4) (rnd 16) (rnd 17) (rnd 18) (rnd 19),
      newCollectible (collectibleId 5) (rnd 20) (rnd 21) (rnd 22) (rnd 23),
      newCollectible (collectibleId 6) (rnd 24) (rnd 25) (rnd 26) (rnd 27),
      newCollectible (collectibleId 7) (rnd 28) (rnd 29) (rnd 30) (rnd 31),
      newCollectible (collectibleId 8) (rnd 32) (rnd 33) (rnd 34) (rnd 35),
      newCollectible (collectibleId 9) (rnd 36) (rnd 37) (rnd 38) (rnd 39)]"
  by (simp add: spawnFrom.simps eval_nat_numeral)

lemma arenaStarted_eq:
  "arenaStarted =
     \<lparr>gameState = Playing, currentPlayer = hostPlayer, collectibles = spawnFrom 0 clusterRnd,
      timeLeft = 60, canvasRef = Some \<lparr>width = 600, height = 400, context2d = True\<rparr>,
      timer = Some 60, scoreUpdates = [], gameEnds = []\<rparr>"
  unfolding arenaStarted_def fire_Start [OF mount_timerInv]
  by (simp add: mount_def mountEffect_def timerEffect_def initial_def
        hostCanvas_def getContext_def spawnCollectibles_def startGame_def hostPlayer_def)

lemma reachable_arenaStarted: "reachable arenaStarted"
  unfolding arenaStarted_def
  by (rule reachable_fire [OF reachable_mount]) simp

lemma clusterRnd_collectibles:
  "spawnFrom 0 clusterRnd =
     map (\<lambda>k. \<lparr>c_id = collectibleId k, c_x = 300, c_y = 200, c_type = Coin, c_value = 10\<rparr>)
       [0, 1, 2, 3, 4, 5, 6]
     @ map (\<lambda>k. \<lparr>c_id = collectibleId k, c_x = 25, c_y = 25, c_type = Coin, c_value = 10\<rparr>)
       [7, 8, 9]"
  by (simp add: spawnFrom_0 clusterRnd_def newCollectible_def toDouble_consts
        toDouble_threshold)

lemma hits_arenaStarted:
  "hits arenaStarted =
     map (\<lambda>k. \<lparr>c_id = collectibleId k, c_x = 300, c_y = 200, c_type = Coin, c_value = 10\<rparr>)
       [0, 1, 2, 3, 4, 5, 6]"
  by (simp add: hits_def arenaStarted_eq clusterRnd_collectibles distance_near_sq
        distance_far_sq hostPlayer_def)

lemma kept_arenaStarted:
  "filter (\<lambda>c. 20 \<le> distance (currentPlayer arenaStarted) c) (collectibles arenaStarted) =
     map (\<lambda>k. \<lparr>c_id = collectibleId k, c_x = 25, c_y = 25, c_type = Coin, c_value = 10\<rparr>)
       [7, 8, 9]"
  by (simp add: arenaStarted_eq clusterRnd_collectibles distance_near_sq distance_far_sq
        hostPlayer_def not_less [symmetric])

lemma arenaScored_collectibles:
  "collectibles arenaScored =
     map (\<lambda>k. \<lparr>c_id = collectibleId k, c_x = 25, c_y = 25, c_type = Coin, c_value = 10\<rparr>)
       [7, 8, 9]
     @ [\<lparr>c_id = collectibleId 1000, c_x = 300, c_y = 200, c_type = Powerup, c_value = 10\<rparr>]"
proof -
  have "length (collectibles arenaStarted) = 10"
    by (simp add: arenaStarted_eq length_spawnFrom)
  then show ?thesis
    unfolding arenaScored_def fire_Frame checkCollisions_collectibles kept_arenaStarted
    by (simp add: hits_arenaStarted mixedRnd_def newCollectible_def toDouble_consts
          toDouble_threshold)
qed

lemma arenaStarted_score: "score (currentPlayer arenaStarted) = 0"
  by (simp add: arenaStarted_eq hostPlayer_def)

lemma arenaScored_score: "score (currentPlayer arenaScored) = 10"
  unfolding arenaScored_def fire_Frame checkCollisions_score
  by (simp add: hits_arenaStarted arenaStarted_score)

lemma arenaScored_fields:
  "gameState arenaScored = Playing" "timeLeft arenaScored = 60" "timer arenaScored = Some 60"
  "gameEnds arenaScored = []"
  unfolding arenaScored_def fire_Frame by (simp_all add: arenaStarted_eq)

lemma reachable_arenaScored: "reachable arenaScored"
  unfolding arenaScored_def
  by (rule reachable_fire [OF reachable_arenaStarted]) (simp add: arenaStarted_eq)

lemma timeouts:
  "gameState s = Playing \<Longrightarrow> timer s = Some (timeLeft s) \<Longrightarrow> int n < timeLeft s \<Longrightarrow>
   (fire Timeout ^^ n) s = s\<lparr>timeLeft := timeLeft s - int n, timer := Some (timeLeft s - int n)\<rparr>"
proof (induction n)
  case 0
  then show ?case by simp
next
  case (Suc n)
  let ?s = "s\<lparr>timeLeft := timeLeft s - int n, timer := Some (timeLeft s - int n)\<rparr>"
  from Suc have eq: "(fire Timeout ^^ n) s = ?s" by simp
  have "fire Timeout ?s = ?s\<lparr>timeLeft := timeLeft ?s - 1, timer := Some (timeLeft ?s - 1)\<rparr>"
    using Suc.prems by (subst fire_Timeout [of ?s "timeLeft ?s"]) simp_all
  then show ?case using eq by (simp add: algebra_simps)
qed

lemma reachable_timeouts:
  "reachable s \<Longrightarrow> gameState s = Playing \<Longrightarrow> timer s = Some (timeLeft s) \<Longrightarrow>
   int n < timeLeft s \<Longrightarrow> reachable ((fire Timeout ^^ n) s)"
proof (induction n)
  case 0
  then show ?case by simp
next
  case (Suc n)
  then have r: "reachable ((fire Timeout ^^ n) s)" by simp
  have "enabled Timeout ((fire Timeout ^^ n) s)"
    using Suc.prems by (simp add: timeouts)
  with r show ?case by (simp add: reachable_fire)
qed

lemma arenaLastSecond_eq: "arenaLastSecond = arenaScored\<lparr>timeLeft := 1, timer := Some 1\<rparr>"
  unfolding arenaLastSecond_def
  using timeouts [of arenaScored 59] by (simp add: arenaScored_fields)

lemma reachable_arenaLastSecond: "reachable arenaLastSecond"
  unfolding arenaLastSecond_def
  using reachable_timeouts [of arenaScored 59]
  by (simp add: arenaScored_fields reachable_arenaScored)

lemma arenaEnded_eq:
  "arenaEnded = arenaScored\<lparr>gameState := Ended, timeLeft := 0, timer := None, gameEnds := [10]\<rparr>"
  unfolding arenaEnded_def arenaLastSecond_eq
  by (subst fire_Timeout [of _ 1])
     (simp_all add: arenaScored_fields endGame_def arenaScored_score)

lemma reachable_arenaEnded: "reachable arenaEnded"
  unfolding arenaEnded_def
  by (rule reachable_fire [OF reachable_arenaLastSecond])
     (simp add: arenaLastSecond_eq)

lemma arenaStarted_frame:
  "collectibles (fire (Frame rnd now) arenaStarted) =
     map (\<lambda>k. \<lparr>c_id = collectibleId k, c_x = 25, c_y = 25, c_type = Coin, c_value = 10\<rparr>)
       [7, 8, 9]
     @ [newCollectible (collectibleId now) (rnd 0) (rnd 1) (rnd 2) (rnd 3)]"
proof -
  have "length (collectibles arenaStarted) = 10"
    by (simp add: arenaStarted_eq length_spawnFrom)
  then show ?thesis
    unfolding fire_Frame checkCollisions_collectibles kept_arenaStarted
    by (simp add: hits_arenaStarted)
qed

lemma arenaStarted_frame_score:
  "score (currentPlayer (fire (Frame rnd now) arenaStarted)) = 10"
  unfolding fire_Frame checkCollisions_score
  by (simp add: hits_arenaStarted arenaStarted_score)

lemma arenaStarted_playing: "gameState arenaStarted = Playing"
  by (simp add: arenaStarted_eq)

lemma checkCollisions_length:
  "length (collectibles (checkCollisions rnd now s)) =
     length (collectibles s) - length (hits s) +
     (if hits s \<noteq> [] \<and> length (collectibles s) - length (hits s) < 5 then 1 else 0)"
proof -
  have "length (filter (\<lambda>c. 20 \<le> distance (currentPlayer s) c) (collectibles s))
          = length (collectibles s) - length (hits s)"
    using length_kept [of "currentPlayer s" "collectibles s"] by (simp add: hits_def)
  then show ?thesis by (simp add: checkCollisions_collectibles)
qed

lemma checkCollisions_scoreUpdates:
  "scoreUpdates (checkCollisions rnd now s) =
     scoreUpdates s @ map (\<lambda>c. score (currentPlayer s) + c_value c) (hits s)"
  by (simp add: checkCollisions_def Let_def collect_snd hits_def)

subsection \<open>Clock, notifications and score along executions\<close>

lemma fire_timeLeft:
  assumes "timerInv s" "enabled e s"
  shows "timeLeft (fire e s) =
           (if isStart e then 60 else if isTimeout e then timeLeft s - 1 else timeLeft s)"
proof (cases e)
  case (Start rnd)
  with assms show ?thesis by (simp add: fire_Start startGame_def spawnCollectibles_def)
next
  case (MouseMove ev rect)
  then show ?thesis by (simp add: fire_MouseMove)
next
  case (Frame rnd now)
  then show ?thesis by (simp add: fire_Frame)
next
  case Timeout
  with assms obtain t where t: "timer s = Some t" by auto
  with assms have p: "gameState s = Playing" "t = timeLeft s" "0 < t"
    by (auto simp add: timerInv_def split: if_splits)
  show ?thesis using p t Timeout by (auto simp add: fire_Timeout endGame_def)
qed

lemma fire_gameEnds:
  assumes "timerInv s" "enabled e s"
  shows "gameEnds (fire e s) =
           (if isTimeout e \<and> timeLeft s = 1 then gameEnds s @ [score (currentPlayer s)]
            else gameEnds s)"
proof (cases e)
  case (Start rnd)
  with assms show ?thesis by (simp add: fire_Start startGame_def spawnCollectibles_def)
next
  case (MouseMove ev rect)
  then show ?thesis by (simp add: fire_MouseMove)
next
  case (Frame rnd now)
  then show ?thesis by (simp add: fire_Frame)
next
  case Timeout
  with assms obtain t where t: "timer s = Some t" by auto
  with assms have p: "gameState s = Playing" "t = timeLeft s" "0 < t"
    by (auto simp add: timerInv_def split: if_splits)
  show ?thesis using p t Timeout by (auto simp add: fire_Timeout endGame_def)
qed

lemma fire_gameState:
  assumes "timerInv s" "enabled e s"
  shows "gameState (fire e s) =
           (if isStart e then Playing
            else if isTimeout e \<and> timeLeft s = 1 then Ended else gameState s)"
proof (cases e)
  case (Start rnd)
  with assms show ?thesis by (simp add: fire_Start startGame_def spawnCollectibles_def)
next
  case (MouseMove ev rect)
  then show ?thesis by (simp add: fire_MouseMove)
next
  case (Frame rnd now)
  then show ?thesis by (simp add: fire_Frame)
next
  case Timeout
  with assms obtain t where t: "timer s = Some t" by auto
  with assms have p: "gameState s = Playing" "t = timeLeft s" "0 < t"
    by (auto simp add: timerInv_def split: if_splits)
  show ?thesis using p t Timeout by (auto simp add: fire_Timeout endGame_def)
qed

lemma fire_Timeout_score:
  "score (currentPlayer (fire Timeout s)) = score (currentPlayer s)"
  by (simp add: fire.simps split: option.splits)

lemma hits_subset: "set (hits s) \<subseteq> set (collectibles s)"
  by (auto simp add: hits_def)

lemma checkCollisions_score_mono:
  assumes "valuesInv s"
  shows "score (currentPlayer s) \<le> score (currentPlayer (checkCollisions rnd now s))"
proof (cases "hits s = []")
  case True
  then show ?thesis by (simp add: checkCollisions_score)
next
  case False
  then have "last (hits s) \<in> set (collectibles s)"
    using hits_subset [of s] last_in_set [of "hits s"] by auto
  with assms have "pointValue (last (hits s))"
    by (simp add: valuesInv_def list_all_iff)
  then have "0 \<le> c_value (last (hits s))" by (auto simp add: pointValue_def)
  with False show ?thesis by (simp add: checkCollisions_score)
qed

lemma render_unavailable: "surfaceUnavailable s \<Longrightarrow> render s = Inr []"
  by (auto simp add: surfaceUnavailable_def render_def Let_def split: option.splits)

lemma render_available:
  "canvasRef s = Some cv \<Longrightarrow> context2d cv \<Longrightarrow> render s = Inr (paint cv s)"
  by (simp add: render_def Let_def getContext_def)

lemma paint_nonempty: "paint cv s \<noteq> []"
  by (simp add: paint_def)

subsection \<open>Replenishment\<close>

lemma replenishment_floor_iff:
  assumes "5 \<le> length (collectibles s)"
  shows "5 \<le> length (collectibles (fire (Frame rnd now) s)) \<longleftrightarrow>
         4 \<le> length (collectibles s) - length (hits s)"
  using assms by (cases "hits s") (auto simp add: fire_Frame checkCollisions_length)

lemma below_threshold_stays:
  assumes "length (collectibles s) < 5"
  shows "length (collectibles (fire (Frame rnd now) s)) < 5"
  using assms by (cases "hits s") (auto simp add: fire_Frame checkCollisions_length)

subsection \<open>The collectible at the boundary\<close>

lemma boundary_dx: "toDouble (300 - c_x boundaryCollectible) = 300 - c_x boundaryCollectible"
  by (rule toDouble_exact [of 4 _ "- 5627614401759264"])
     (simp_all add: boundaryCollectible_def powr_minus_divide)

lemma boundary_dy: "toDouble (200 - c_y boundaryCollectible) = 200 - c_y boundaryCollectible"
  by (rule toDouble_exact [of "- 1" _ "4661593980289792"])
     (simp_all add: boundaryCollectible_def powr_minus_divide)

lemma boundary_dx2: "toDouble ((300 - c_x boundaryCollectible)\<^sup>2) = 7032162375717083 / 2 ^ 44"
  using toDouble_round [of 8 "(300 - c_x boundaryCollectible)\<^sup>2" 7032162375717083]
  by (simp add: boundaryCollectible_def powr_minus_divide power2_eq_square)

lemma boundary_dy2: "toDouble ((200 - c_y boundaryCollectible)\<^sup>2) = 4825131058499915 / 2 ^ 54"
  using toDouble_round [of "- 2" "(200 - c_y boundaryCollectible)\<^sup>2" 4825131058499915]
  by (simp add: boundaryCollectible_def powr_minus_divide power2_eq_square)

lemma boundary_sum: "toDouble (7032162375717083 / 2 ^ 44 + 4825131058499915 / 2 ^ 54) = 7036874417766399 / 2 ^ 44"
  using toDouble_round [of 8 "7032162375717083 / 2 ^ 44 + 4825131058499915 / 2 ^ 54" 7036874417766399]
  by (simp add: powr_minus_divide)

lemma boundary_sqrt: "toDouble (sqrt (7036874417766399 / 2 ^ 44)) = 20"
proof -
  let ?S = "7036874417766399 / 2 ^ 44 :: real"
  have lo: "(5629499534213120 - 1 / 2) / 2 ^ 48 < sqrt ?S"
    by (rule real_less_rsqrt) (simp add: power2_eq_square)
  have hi: "sqrt ?S < 20"
    by (rule real_less_lsqrt) simp_all
  have "toDouble (sqrt ?S) = of_int 5629499534213120 * 2 powr of_int (4 - 52)"
    using lo hi by (intro toDouble_round) (simp_all add: powr_minus_divide)
  then show ?thesis by (simp add: powr_minus_divide)
qed

lemma boundary_exact_300: "sqrt ((300 - c_x boundaryCollectible)\<^sup>2 + (200 - c_y boundaryCollectible)\<^sup>2) < 20"
  by (rule real_less_lsqrt) (simp_all add: boundaryCollectible_def boundaryCollectible_def power2_eq_square)

lemma boundary_player:
  "p_x (currentPlayer arenaBoundary) = 300" "p_y (currentPlayer arenaBoundary) = 200"
  by (simp_all add: arenaBoundary_def arenaStarted_eq hostPlayer_def)

lemma boundary_distance: "distance (currentPlayer arenaBoundary) boundaryCollectible = 20"
  unfolding distance_def boundary_player boundary_dx boundary_dy boundary_dx2 boundary_dy2
    boundary_sum boundary_sqrt ..

lemma boundary_exact:
  "sqrt ((p_x (currentPlayer arenaBoundary) - c_x boundaryCollectible)\<^sup>2 +
         (p_y (currentPlayer arenaBoundary) - c_y boundaryCollectible)\<^sup>2) < 20"
  unfolding boundary_player by (rule boundary_exact_300)

section \<open>Claims\<close>

text \<open>
  C1 (the code departs from the claim). A round is started with \<open>clusterRnd\<close>, so
  seven collectibles lie on the player; the next frame removes them, three remain, and one
  replacement is spawned from the draws of \<open>mixedRnd\<close>: 0.8 for the kind, 0.5 for the
  value. The kind and the value are decided by two separate draws, and the replacement is
  a power-up worth 10.
\<close>

theorem replenishment_kind_value_mismatch:
  "reachable arenaStarted \<and> gameState arenaStarted = Playing \<and>
   collectibles (fire (Frame mixedRnd 1000) arenaStarted) =
     filter (\<lambda>c. 20 \<le> distance (currentPlayer arenaStarted) c) (collectibles arenaStarted)
     @ [newCollectible (collectibleId 1000) (1 / 2) (1 / 2) (4 / 5) (1 / 2)] \<and>
   c_type (newCollectible (collectibleId 1000) (1 / 2) (1 / 2) (4 / 5) (1 / 2)) = Powerup \<and>
   c_value (newCollectible (collectibleId 1000) (1 / 2) (1 / 2) (4 / 5) (1 / 2)) = 10"
  by (simp add: reachable_arenaStarted arenaStarted_playing arenaStarted_frame kept_arenaStarted
        mixedRnd_def) (simp add: newCollectible_def toDouble_threshold)

text \<open>
  C2 (the code departs from the claim). A frame spawns at most one replacement. In the
  started round ten collectibles are present and seven lie on the player: the next frame
  removes the seven, spawns one, and leaves four. From then on every frame leaves fewer
  than five.
\<close>

theorem replenishment_below_threshold:
  "reachable arenaStarted \<and> gameState arenaStarted = Playing \<and>
   enabled (Frame clusterRnd 1000) arenaStarted \<and>
   length (collectibles arenaStarted) = 10 \<and> length (hits arenaStarted) = 7 \<and>
   length (collectibles (fire (Frame clusterRnd 1000) arenaStarted)) = 4 \<and>
   length (collectibles (fire (Frame clusterRnd 1016) (fire (Frame clusterRnd 1000) arenaStarted)))
     < 5"
proof -
  have n: "length (collectibles arenaStarted) = 10"
    by (simp add: arenaStarted_eq length_spawnFrom)
  have h: "length (hits arenaStarted) = 7" by (simp add: hits_arenaStarted)
  have a: "length (collectibles (fire (Frame clusterRnd 1000) arenaStarted)) = 4"
    by (simp add: arenaStarted_frame)
  then have "length (collectibles (fire (Frame clusterRnd 1000) arenaStarted)) < 5" by simp
  then have "length (collectibles
      (fire (Frame clusterRnd 1016) (fire (Frame clusterRnd 1000) arenaStarted))) < 5"
    by (rule below_threshold_stays)
  then show ?thesis
    using n h a reachable_arenaStarted arenaStarted_playing by simp
qed

text \<open>
  C3 (the code departs from the claim). The round starts with score 0; one frame consumes
  seven collectibles worth 10 each. Every \<open>newScore\<close> is computed from the score of
  the render, so seven updates of 10 are posted and the score after the frame is 10.
\<close>

theorem simultaneous_pickups_score:
  "reachable arenaStarted \<and> gameState arenaStarted = Playing \<and>
   score (currentPlayer arenaStarted) = 0 \<and>
   map c_value (hits arenaStarted) = [10, 10, 10, 10, 10, 10, 10] \<and>
   scoreUpdates (fire (Frame clusterRnd 1000) arenaStarted) = [10, 10, 10, 10, 10, 10, 10] \<and>
   score (currentPlayer (fire (Frame clusterRnd 1000) arenaStarted)) = 10"
proof -
  have "map c_value (hits arenaStarted) = [10, 10, 10, 10, 10, 10, 10]"
    by (simp add: hits_arenaStarted)
  moreover have "scoreUpdates arenaStarted = []"
    by (simp add: arenaStarted_eq)
  then have "scoreUpdates (fire (Frame clusterRnd 1000) arenaStarted) = [10, 10, 10, 10, 10, 10, 10]"
    unfolding fire_Frame checkCollisions_scoreUpdates
    by (simp add: hits_arenaStarted arenaStarted_score)
  ultimately show ?thesis
    using reachable_arenaStarted arenaStarted_playing arenaStarted_score
      arenaStarted_frame_score [of clusterRnd 1000]
    by simp
qed

text \<open>
  C4 (amended). One collision-check frame keeps, in their order and unchanged, exactly
  the collectibles whose distance to the player, computed in double arithmetic as the
  code does (\<open>distance\<close>), is not below 20, removes all the others, and appends at
  most one spawned collectible. For coordinate differences of at most 1000 the computed
  test agrees with the exact Euclidean distance whenever that distance is at most
  20 - 1/1000000 (removed) or at least 20 + 1/1000000 (kept).
\<close>

theorem checkCollisions_removes_iff_near:
  "(\<exists>spawned. length spawned \<le> 1 \<and>
      collectibles (fire (Frame rnd now) s) =
        filter (\<lambda>c. \<not> distance (currentPlayer s) c < 20) (collectibles s) @ spawned) \<and>
   (\<bar>p_x (currentPlayer s) - c_x c\<bar> \<le> 1000 \<and> \<bar>p_y (currentPlayer s) - c_y c\<bar> \<le> 1000 \<longrightarrow>
      (sqrt ((p_x (currentPlayer s) - c_x c)\<^sup>2 + (p_y (currentPlayer s) - c_y c)\<^sup>2)
         \<le> 20 - 1 / 1000000 \<longrightarrow> distance (currentPlayer s) c < 20) \<and>
      (20 + 1 / 1000000
         \<le> sqrt ((p_x (currentPlayer s) - c_x c)\<^sup>2 + (p_y (currentPlayer s) - c_y c)\<^sup>2)
         \<longrightarrow> \<not> distance (currentPlayer s) c < 20))"
proof -
  have "(\<lambda>c. 20 \<le> distance (currentPlayer s) c) = (\<lambda>c. \<not> distance (currentPlayer s) c < 20)"
    by (simp add: not_less)
  then have "\<exists>spawned. length spawned \<le> 1 \<and>
      collectibles (fire (Frame rnd now) s) =
        filter (\<lambda>c. \<not> distance (currentPlayer s) c < 20) (collectibles s) @ spawned"
    unfolding fire_Frame checkCollisions_collectibles by simp
  then show ?thesis
    using distance_near [of "currentPlayer s" c] distance_far [of "currentPlayer s" c]
    by blast
qed

text \<open>
  C4, witness: in the started round the collectible in the corner is 325.96 away and is
  kept, the collectible on the player is removed.
\<close>

theorem checkCollisions_removes_iff_near_witness:
  "\<bar>p_x (currentPlayer arenaStarted) - 25\<bar> \<le> 1000 \<and> \<bar>p_y (currentPlayer arenaStarted) - 25\<bar> \<le> 1000 \<and>
   20 + 1 / 1000000
     \<le> sqrt ((p_x (currentPlayer arenaStarted) - 25)\<^sup>2 + (p_y (currentPlayer arenaStarted) - 25)\<^sup>2) \<and>
   \<not> distance (currentPlayer arenaStarted)
        \<lparr>c_id = collectibleId 7, c_x = 25, c_y = 25, c_type = Coin, c_value = 10\<rparr> < 20 \<and>
   \<bar>p_x (currentPlayer arenaStarted) - 300\<bar> \<le> 1000 \<and> \<bar>p_y (currentPlayer arenaStarted) - 200\<bar> \<le> 1000 \<and>
   sqrt ((p_x (currentPlayer arenaStarted) - 300)\<^sup>2 + (p_y (currentPlayer arenaStarted) - 200)\<^sup>2)
     \<le> 20 - 1 / 1000000 \<and>
   distance (currentPlayer arenaStarted)
        \<lparr>c_id = collectibleId 0, c_x = 300, c_y = 200, c_type = Coin, c_value = 10\<rparr> < 20"
proof -
  have p: "p_x (currentPlayer arenaStarted) = 300" "p_y (currentPlayer arenaStarted) = 200"
    by (simp_all add: arenaStarted_eq hostPlayer_def)
  have "(20 + 1 / 1000000)\<^sup>2 \<le> (106250::real)" by (simp add: power2_eq_square)
  then have far: "20 + 1 / 1000000 \<le> sqrt (106250::real)" by (rule real_le_rsqrt)
  show ?thesis
    using checkCollisions_removes_iff_near
        [of mixedRnd 1000 arenaStarted
          "\<lparr>c_id = collectibleId 7, c_x = 25, c_y = 25, c_type = Coin, c_value = 10\<rparr>"]
      checkCollisions_removes_iff_near
        [of mixedRnd 1000 arenaStarted
          "\<lparr>c_id = collectibleId 0, c_x = 300, c_y = 200, c_type = Coin, c_value = 10\<rparr>"]
      far
    by (simp add: p)
qed

text \<open>
  C4, counterexample: the player is at (300, 200) and the collectible at
  (319.99330266414484, 199.48245910316282). Their exact Euclidean distance is below 20,
  the code computes 20, and the frame keeps the collectible.
\<close>

theorem boundary_collectible_kept:
  "sqrt ((p_x (currentPlayer arenaBoundary) - c_x boundaryCollectible)\<^sup>2 +
         (p_y (currentPlayer arenaBoundary) - c_y boundaryCollectible)\<^sup>2) < 20 \<and>
   distance (currentPlayer arenaBoundary) boundaryCollectible = 20 \<and>
   gameState arenaBoundary = Playing \<and>
   collectibles arenaBoundary = [boundaryCollectible] \<and>
   collectibles (fire (Frame mixedRnd 1000) arenaBoundary) = [boundaryCollectible]"
proof -
  have c: "collectibles arenaBoundary = [boundaryCollectible]"
    by (simp add: arenaBoundary_def)
  have "hits arenaBoundary = []"
    by (simp add: hits_def c boundary_distance)
  then have "collectibles (fire (Frame mixedRnd 1000) arenaBoundary) = [boundaryCollectible]"
    unfolding fire_Frame checkCollisions_collectibles by (simp add: c boundary_distance)
  moreover have "gameState arenaBoundary = Playing"
    by (simp add: arenaBoundary_def arenaStarted_eq)
  ultimately show ?thesis using boundary_exact boundary_distance c by simp
qed

text \<open>
  C5. While the round is playing, a pointer move at any client position leaves the player
  inside \<open>[15, width - 15] \<times> [15, height - 15]\<close> of the canvas, provided the
  canvas is at least 30 wide and high (it is 600 by 400 once mounted).
\<close>

theorem handleMouseMove_within_bounds:
  assumes "gameState s = Playing" "canvasRef s = Some cv" "30 \<le> width cv" "30 \<le> height cv"
  shows "15 \<le> p_x (currentPlayer (fire (MouseMove e rect) s)) \<and>
         p_x (currentPlayer (fire (MouseMove e rect) s)) \<le> real_of_int (width cv) - 15 \<and>
         15 \<le> p_y (currentPlayer (fire (MouseMove e rect) s)) \<and>
         p_y (currentPlayer (fire (MouseMove e rect) s)) \<le> real_of_int (height cv) - 15"
  using assms by (simp add: fire_MouseMove handleMouseMove_def Let_def)

text \<open>C5, witness: a pointer far outside the 600 by 400 canvas is clamped to (585, 15).\<close>

theorem handleMouseMove_within_bounds_witness:
  "gameState arenaStarted = Playing \<and>
   canvasRef arenaStarted = Some \<lparr>width = 600, height = 400, context2d = True\<rparr> \<and>
   p_x (currentPlayer (fire (MouseMove pointerOutside canvasRect) arenaStarted)) = 585 \<and>
   p_y (currentPlayer (fire (MouseMove pointerOutside canvasRect) arenaStarted)) = 15 \<and>
   (15::real) \<le> 585 \<and> (585::real) \<le> real_of_int 600 - 15 \<and> (15::real) \<le> real_of_int 400 - 15"
proof -
  have g: "gameState arenaStarted = Playing"
    and c: "canvasRef arenaStarted = Some \<lparr>width = 600, height = 400, context2d = True\<rparr>"
    by (simp_all add: arenaStarted_eq)
  have x: "p_x (currentPlayer (fire (MouseMove pointerOutside canvasRect) arenaStarted)) = 585"
    and y: "p_y (currentPlayer (fire (MouseMove pointerOutside canvasRect) arenaStarted)) = 15"
    by (simp_all add: fire_MouseMove handleMouseMove_def arenaStarted_eq pointerOutside_def
          canvasRect_def toDouble_consts)
  show ?thesis
    using handleMouseMove_within_bounds [OF g c, of pointerOutside canvasRect] g c x y by simp
qed

text \<open>
  C6. Invoking start in any round state (waiting, ended, or while playing) commits a state
  in which the round is playing, the score is 0, the clock shows 60 and the collectibles
  are the ten freshly spawned ones.
\<close>

theorem startGame_resets:
  "gameState (fire (Start rnd) s) = Playing \<and>
   score (currentPlayer (fire (Start rnd) s)) = 0 \<and>
   timeLeft (fire (Start rnd) s) = 60 \<and>
   collectibles (fire (Start rnd) s) = spawnFrom 0 rnd \<and>
   length (collectibles (fire (Start rnd) s)) = 10"
  by (simp add: fire.simps commit_eq startGame_def spawnCollectibles_def length_spawnFrom endGame_def)

text \<open>
  C7. In every execution, an event that brings the clock to 0 while the round is playing
  is the timeout; it ends the round and calls \<open>onGameEnd\<close> exactly once, with the
  score of that moment. No other event calls \<open>onGameEnd\<close>. Once the round has ended
  no timeout is pending, and until start is invoked the round stays ended and the clock
  keeps its value.
\<close>

theorem timer_expiry_ends_round:
  assumes "reachable s" "enabled e s"
  shows "(gameState s = Playing \<and> timeLeft (fire e s) = 0 \<longrightarrow>
            isTimeout e \<and> gameState (fire e s) = Ended \<and>
            gameEnds (fire e s) = gameEnds s @ [score (currentPlayer s)] \<and>
            score (currentPlayer (fire e s)) = score (currentPlayer s)) \<and>
         (\<not> (gameState s = Playing \<and> timeLeft (fire e s) = 0) \<longrightarrow>
            gameEnds (fire e s) = gameEnds s) \<and>
         (gameState s = Ended \<longrightarrow>
            \<not> enabled Timeout s \<and>
            (\<not> isStart e \<longrightarrow>
               gameState (fire e s) = Ended \<and> timeLeft (fire e s) = timeLeft s))"
proof -
  from assms(1) have inv: "timerInv s" by (rule reachable_timerInv)
  note f = fire_timeLeft [OF inv assms(2)] fire_gameEnds [OF inv assms(2)]
    fire_gameState [OF inv assms(2)]
  have pos: "gameState s = Playing \<Longrightarrow> 0 < timeLeft s"
    using inv by (simp add: timerInv_def)
  have idle: "gameState s \<noteq> Playing \<Longrightarrow> timer s = None"
    using inv by (simp add: timerInv_def)
  have play: "gameState s = Playing" if "isTimeout e"
  proof (rule ccontr)
    assume "gameState s \<noteq> Playing"
    then have "timer s = None" by (rule idle)
    with that assms(2) show False by (cases e) simp_all
  qed
  have notboth: "isStart e \<Longrightarrow> \<not> isTimeout e" by (cases e) simp_all
  have sc: "isTimeout e \<Longrightarrow> score (currentPlayer (fire e s)) = score (currentPlayer s)"
    by (cases e) (simp_all add: fire_Timeout_score)
  have a: "gameState s = Playing \<and> timeLeft (fire e s) = 0 \<longrightarrow>
            isTimeout e \<and> gameState (fire e s) = Ended \<and>
            gameEnds (fire e s) = gameEnds s @ [score (currentPlayer s)] \<and>
            score (currentPlayer (fire e s)) = score (currentPlayer s)"
    using f pos notboth sc by (auto split: if_splits)
  have b: "\<not> (gameState s = Playing \<and> timeLeft (fire e s) = 0) \<longrightarrow>
            gameEnds (fire e s) = gameEnds s"
    using f play notboth by (auto split: if_splits)
  have c: "gameState s = Ended \<longrightarrow>
            \<not> enabled Timeout s \<and>
            (\<not> isStart e \<longrightarrow>
               gameState (fire e s) = Ended \<and> timeLeft (fire e s) = timeLeft s)"
    using f play idle by (auto split: if_splits)
  from a b c show ?thesis by blast
qed

text \<open>
  C7, witness: the last second of a round that scored 10, and the ended round after it.
\<close>

theorem timer_expiry_ends_round_witness:
  "reachable arenaLastSecond \<and> enabled Timeout arenaLastSecond \<and>
   gameState arenaLastSecond = Playing \<and> timeLeft (fire Timeout arenaLastSecond) = 0 \<and>
   gameState (fire Timeout arenaLastSecond) = Ended \<and>
   gameEnds (fire Timeout arenaLastSecond) = [10] \<and>
   score (currentPlayer (fire Timeout arenaLastSecond)) = 10 \<and>
   reachable arenaEnded \<and> enabled (MouseMove pointerOutside canvasRect) arenaEnded \<and>
   gameState arenaEnded = Ended \<and> \<not> enabled Timeout arenaEnded \<and>
   gameState (fire (MouseMove pointerOutside canvasRect) arenaEnded) = Ended \<and>
   timeLeft (fire (MouseMove pointerOutside canvasRect) arenaEnded) = 0 \<and>
   gameEnds (fire (MouseMove pointerOutside canvasRect) arenaEnded) = [10]"
proof -
  have e1: "enabled Timeout arenaLastSecond" by (simp add: arenaLastSecond_eq)
  have p1: "gameState arenaLastSecond = Playing"
    by (simp add: arenaLastSecond_eq arenaScored_fields)
  have t1: "timeLeft (fire Timeout arenaLastSecond) = 0"
    unfolding arenaEnded_def [symmetric] by (simp add: arenaEnded_eq)
  have g1: "gameEnds arenaLastSecond = []" "score (currentPlayer arenaLastSecond) = 10"
    by (simp_all add: arenaLastSecond_eq arenaScored_fields arenaScored_score)
  have e2: "enabled (MouseMove pointerOutside canvasRect) arenaEnded" by simp
  have p2: "gameState arenaEnded = Ended" "timeLeft arenaEnded = 0" "gameEnds arenaEnded = [10]"
    by (simp_all add: arenaEnded_eq)
  have n2: "\<not> isStart (MouseMove pointerOutside canvasRect)" by simp
  show ?thesis
    using timer_expiry_ends_round [OF reachable_arenaLastSecond e1]
      timer_expiry_ends_round [OF reachable_arenaEnded e2]
      reachable_arenaLastSecond reachable_arenaEnded e1 p1 t1 g1 e2 p2 n2
    by simp
qed

text \<open>
  C8 (amended). In every execution the score does not decrease under a pointer move, a
  collision-check frame or a timeout; start sets it to 0.
\<close>

theorem score_monotone_except_start:
  assumes "reachable s" "enabled e s"
  shows "(\<not> isStart e \<longrightarrow> score (currentPlayer s) \<le> score (currentPlayer (fire e s))) \<and>
         (isStart e \<longrightarrow> score (currentPlayer (fire e s)) = 0)"
proof (cases e)
  case (Start rnd)
  then show ?thesis by (simp add: fire.simps startGame_def spawnCollectibles_def)
next
  case (MouseMove ev rect)
  then show ?thesis by (simp add: fire_MouseMove)
next
  case (Frame rnd now)
  from assms(1) have "valuesInv s" by (rule reachable_valuesInv)
  with Frame show ?thesis by (simp add: fire_Frame checkCollisions_score_mono)
next
  case Timeout
  then show ?thesis by (simp add: fire_Timeout_score)
qed

text \<open>
  C8, witness: a frame of the started round raises the score from 0 to 10; start after
  the round has ended sets it to 0.
\<close>

theorem score_monotone_except_start_witness:
  "reachable arenaStarted \<and> enabled (Frame clusterRnd 1000) arenaStarted \<and>
   \<not> isStart (Frame clusterRnd 1000) \<and>
   score (currentPlayer arenaStarted) = 0 \<and>
   score (currentPlayer (fire (Frame clusterRnd 1000) arenaStarted)) = 10 \<and>
   reachable arenaEnded \<and> enabled (Start clusterRnd) arenaEnded \<and> isStart (Start clusterRnd) \<and>
   score (currentPlayer (fire (Start clusterRnd) arenaEnded)) = 0"
proof -
  have e1: "enabled (Frame clusterRnd 1000) arenaStarted" by (simp add: arenaStarted_playing)
  have e2: "enabled (Start clusterRnd) arenaEnded" by simp
  show ?thesis
    using score_monotone_except_start [OF reachable_arenaStarted e1]
      score_monotone_except_start [OF reachable_arenaEnded e2]
      reachable_arenaStarted reachable_arenaEnded e1 e2 arenaStarted_score
      arenaStarted_frame_score [of clusterRnd 1000]
    by simp
qed

text \<open>
  C8, counterexample: the round ended with score 10, and start lowers the score to 0.
\<close>

theorem start_decreases_score:
  "reachable arenaEnded \<and> enabled (Start clusterRnd) arenaEnded \<and>
   score (currentPlayer arenaEnded) = 10 \<and>
   score (currentPlayer (fire (Start clusterRnd) arenaEnded)) = 0 \<and>
   score (currentPlayer (fire (Start clusterRnd) arenaEnded)) < score (currentPlayer arenaEnded)"
proof -
  have "score (currentPlayer arenaEnded) = 10"
    by (simp add: arenaEnded_eq arenaScored_score)
  moreover have "score (currentPlayer (fire (Start clusterRnd) arenaEnded)) = 0"
    by (simp add: fire.simps startGame_def spawnCollectibles_def)
  moreover have "enabled (Start clusterRnd) arenaEnded" by simp
  ultimately show ?thesis using reachable_arenaEnded by simp
qed

text \<open>
  C9. When there is no canvas or no 2D context, a frame throws nothing and draws nothing,
  the collision check still runs, and the next frame stays scheduled; a later frame on a
  canvas with a context draws the whole scene again.
\<close>

theorem gameLoop_without_surface:
  assumes "surfaceUnavailable s" "context2d cv"
  shows "gameLoop rnd now s = Inr ([], checkCollisions rnd now s) \<and>
         fire (Frame rnd now) s = checkCollisions rnd now s \<and>
         enabled (Frame rnd' now') (fire (Frame rnd now) s) = enabled (Frame rnd now) s \<and>
         gameLoop rnd' now' ((fire (Frame rnd now) s)\<lparr>canvasRef := Some cv\<rparr>) =
           Inr (paint cv ((fire (Frame rnd now) s)\<lparr>canvasRef := Some cv\<rparr>),
                checkCollisions rnd' now' ((fire (Frame rnd now) s)\<lparr>canvasRef := Some cv\<rparr>)) \<and>
         paint cv ((fire (Frame rnd now) s)\<lparr>canvasRef := Some cv\<rparr>) \<noteq> []"
  using assms
  by (simp add: gameLoop_def render_unavailable render_available fire_Frame paint_nonempty)

text \<open>
  C9, witness: the started round without a canvas.
\<close>

theorem gameLoop_without_surface_witness:
  "surfaceUnavailable arenaNoCanvas \<and>
   context2d \<lparr>width = 600, height = 400, context2d = True\<rparr> \<and>
   gameLoop mixedRnd 1000 arenaNoCanvas = Inr ([], checkCollisions mixedRnd 1000 arenaNoCanvas) \<and>
   fire (Frame mixedRnd 1000) arenaNoCanvas = checkCollisions mixedRnd 1000 arenaNoCanvas \<and>
   enabled (Frame mixedRnd 1016) (fire (Frame mixedRnd 1000) arenaNoCanvas)"
proof -
  have u: "surfaceUnavailable arenaNoCanvas"
    by (simp add: surfaceUnavailable_def arenaNoCanvas_def)
  have c: "context2d \<lparr>width = 600, height = 400, context2d = True\<rparr>" by simp
  have e: "enabled (Frame mixedRnd 1000) arenaNoCanvas"
    by (simp add: arenaNoCanvas_def arenaStarted_playing)
  show ?thesis
    using gameLoop_without_surface [OF u c, of mixedRnd 1000 mixedRnd 1016] u e by simp
qed

text \<open>
  C10. In every execution the clock stays within 0 and 60: it is 60 when the component
  mounts and after start, a timeout lowers it by exactly 1, a timeout can fire only while
  the round is playing and the clock is positive, and no other event changes it.
\<close>

theorem timeLeft_bounds:
  assumes "reachable s"
  shows "0 \<le> timeLeft s \<and> timeLeft s \<le> 60 \<and>
         timeLeft (mount p cv rnd) = 60 \<and>
         (enabled e s \<longrightarrow>
            timeLeft (fire e s) =
              (if isStart e then 60 else if isTimeout e then timeLeft s - 1 else timeLeft s)) \<and>
         (enabled Timeout s \<longrightarrow> gameState s = Playing \<and> 0 < timeLeft s)"
proof -
  from assms have inv: "timerInv s" by (rule reachable_timerInv)
  then have "0 \<le> timeLeft s \<and> timeLeft s \<le> 60" by (simp add: timerInv_def)
  moreover have "enabled Timeout s \<longrightarrow> gameState s = Playing \<and> 0 < timeLeft s"
    using inv by (auto simp add: timerInv_def split: if_splits)
  ultimately show ?thesis using fire_timeLeft [OF inv] by simp
qed

text \<open>
  C10, witness: the first timeout of the started round takes the clock from 60 to 59.
\<close>

theorem timeLeft_bounds_witness:
  "reachable arenaStarted \<and> enabled Timeout arenaStarted \<and>
   timeLeft arenaStarted = 60 \<and> gameState arenaStarted = Playing \<and>
   timeLeft (fire Timeout arenaStarted) = 59 \<and>
   timeLeft (mount hostPlayer (Some hostCanvas) clusterRnd) = 60"
proof -
  have e: "enabled Timeout arenaStarted" and t: "timeLeft arenaStarted = 60"
    by (simp_all add: arenaStarted_eq)
  show ?thesis
    using timeLeft_bounds [OF reachable_arenaStarted, of hostPlayer "Some hostCanvas" clusterRnd Timeout]
      reachable_arenaStarted e t
    by simp
qed

end
